theory Spec2Isabelle
  imports Complex_Main
begin

section \<open>Data model\<close>

text \<open>
  A two-dimensional numpy array is a list of rows; \<open>rect H W a\<close> says that \<open>a\<close> has shape
  \<open>(H, W)\<close>. An \<open>image\<close> holds pixel intensities, which are finite real numbers (an image
  with NaN or infinite pixels is outside the model), and a \<open>mask\<close> holds booleans.
  Arithmetic on finite values is exact.

  The noise map is the one array in which the code can produce values that are not finite:
  line 59 divides by the calibration ratio, which is 0 for a box size of 1 or -1. Its elements
  are values of type \<open>fl\<close>: a finite real, one of the two infinities, or NaN, with the
  comparison and the arithmetic of IEEE 754 on them.
\<close>

type_synonym image = "real list list"

type_synonym mask = "bool list list"

datatype fl = Fin real | PInf | NInf | NaN

type_synonym noise_map = "fl list list"

definition rect :: "nat \<Rightarrow> nat \<Rightarrow> 'a list list \<Rightarrow> bool" where
  "rect H W a = (length a = H \<and> list_all (\<lambda>r. length r = W) a)"

text \<open>The width of an array; an array with no rows is given width 0.\<close>

definition width :: "'a list list \<Rightarrow> nat" where
  "width a = (case a of [] \<Rightarrow> 0 | r # _ \<Rightarrow> length r)"

text \<open>\<open>tabulate2 a f\<close> is the array of the shape of \<open>a\<close> whose element \<open>(i, j)\<close> is \<open>f i j\<close>.\<close>

definition tabulate2 :: "'a list list \<Rightarrow> (nat \<Rightarrow> nat \<Rightarrow> 'b) \<Rightarrow> 'b list list" where
  "tabulate2 a f = map (\<lambda>i. map (\<lambda>j. f i j) [0..<length (a ! i)]) [0..<length a]"

text \<open>The set of positions at which a mask is true.\<close>

definition true_set :: "mask \<Rightarrow> (nat \<times> nat) set" where
  "true_set m = {(i, j). i < length m \<and> j < length (m ! i) \<and> m ! i ! j}"

datatype error = ValueError | SysExit | OverflowError | IndexError

definition ebind :: "error + 'a \<Rightarrow> ('a \<Rightarrow> error + 'b) \<Rightarrow> error + 'b" where
  "ebind r f = (case r of Inl e \<Rightarrow> Inl e | Inr v \<Rightarrow> f v)"

section \<open>Values that need not be finite\<close>

text \<open>
  \<open>fl_less\<close> and \<open>fl_le\<close> are the comparisons \<open><\<close> and \<open><=\<close>: false as soon as one side
  is NaN. \<open>fl_div v r\<close> is the quotient of the finite value \<open>v\<close> by the finite \<open>r\<close>, which
  is an infinity or NaN when \<open>r\<close> is 0. \<open>fl_times t v\<close> is the product of the finite \<open>t\<close>
  and \<open>v\<close>; \<open>fl_add\<close> and \<open>fl_half\<close> are the sum and the division by 2 that the mean of two
  values takes.
\<close>

fun fl_less :: "fl \<Rightarrow> fl \<Rightarrow> bool" where
  "fl_less NaN _ = False"
| "fl_less _ NaN = False"
| "fl_less (Fin a) (Fin b) = (a < b)"
| "fl_less (Fin a) PInf = True"
| "fl_less (Fin a) NInf = False"
| "fl_less PInf _ = False"
| "fl_less NInf NInf = False"
| "fl_less NInf _ = True"


definition fl_div :: "real \<Rightarrow> real \<Rightarrow> fl" where
  "fl_div v r =
     (if r \<noteq> 0 then Fin (v / r)
      else if 0 < v then PInf
      else if v < 0 then NInf
      else NaN)"

fun fl_times :: "real \<Rightarrow> fl \<Rightarrow> fl" where
  "fl_times t (Fin v) = Fin (t * v)"
| "fl_times t PInf = (if 0 < t then PInf else if t < 0 then NInf else NaN)"
| "fl_times t NInf = (if 0 < t then NInf else if t < 0 then PInf else NaN)"
| "fl_times t NaN = NaN"

fun fl_add :: "fl \<Rightarrow> fl \<Rightarrow> fl" where
  "fl_add NaN _ = NaN"
| "fl_add _ NaN = NaN"
| "fl_add (Fin a) (Fin b) = Fin (a + b)"
| "fl_add PInf NInf = NaN"
| "fl_add NInf PInf = NaN"
| "fl_add PInf _ = PInf"
| "fl_add _ PInf = PInf"
| "fl_add NInf _ = NInf"
| "fl_add _ NInf = NInf"

fun fl_half :: "fl \<Rightarrow> fl" where
  "fl_half (Fin a) = Fin (a / 2)"
| "fl_half v = v"

section \<open>The calibration ratio\<close>

text \<open>
  Lines 54 to 58 of \<open>make_noise_map\<close>, in exact arithmetic.

  Line 54, \<open>n = boxsize**2.0\<close>, converts \<open>boxsize\<close> to a double and squares it, and raises
  \<open>OverflowError\<close> when the result is not finite. The doubles next to \<open>2^512\<close> are
  \<open>2^512 - 2^459\<close> and \<open>2^512\<close>, and the square of the first is finite, so the error is
  raised when \<open>|boxsize|\<close> rounds to \<open>2^512\<close> or more, that is from \<open>2^512 - 2^458\<close> on.
  Below that the model takes \<open>n\<close> to be the square of \<open>boxsize\<close> (the code's \<open>n\<close> is this
  square rounded to double precision, which is the square itself for \<open>|boxsize|\<close> up to
  \<open>2^26\<close>).

  Line 55: \<open>numpy.linspace(-10, 10, 1000)\<close> is the list of the 1000 points
  \<open>-10 + k * (20 / 999)\<close>.

  Line 56: \<open>scipy.special.erf\<close> is the error function. It is defined here by the series
  \<open>erf x = 2 / sqrt pi * exp (- x^2) * (\<Sum>n. 2^n * x^(2 n + 1) / (1 * 3 * ... * (2 n + 1)))\<close>
  (Abramowitz and Stegun, 7.1.6), whose terms all have the sign of \<open>x\<close>.

  Line 57: \<open>F = 1 - (1 - f)^n\<close>.

  Line 58: \<open>numpy.interp(0.5, F, x)\<close>, for sample points \<open>F\<close> that increase, is the last
  value of \<open>x\<close> when \<open>0.5\<close> is beyond the last sample point, the first value of \<open>x\<close> when it is
  before the first one, and otherwise the value at \<open>0.5\<close> of the line through the two
  neighbouring samples \<open>F[j] <= 0.5 < F[j + 1]\<close>. The model looks for the first such \<open>j\<close>.
\<close>

fun odd_fact :: "nat \<Rightarrow> nat" where
  "odd_fact 0 = 1"
| "odd_fact (Suc n) = (2 * n + 3) * odd_fact n"

definition erf_term :: "real \<Rightarrow> nat \<Rightarrow> real" where
  "erf_term x n = 2 ^ n * x ^ (2 * n + 1) / real (odd_fact n)"

definition erf :: "real \<Rightarrow> real" where
  "erf x = 2 / sqrt pi * exp (- (x * x)) * (\<Sum>n. erf_term x n)"

definition linspace_pt :: "nat \<Rightarrow> real" where
  "linspace_pt k = - 10 + real k * (20 / 999)"

definition grid_points :: nat where
  "grid_points = 1000"

definition grid :: "real list" where
  "grid = map linspace_pt [0..<grid_points]"

definition norm_cdf :: "real \<Rightarrow> real" where
  "norm_cdf x = 1 / 2 * (1 + erf (x / sqrt 2))"

definition min_cdf :: "nat \<Rightarrow> real \<Rightarrow> real" where
  "min_cdf n x = 1 - (1 - norm_cdf x) ^ n"

definition interp :: "real \<Rightarrow> real list \<Rightarrow> real list \<Rightarrow> real" where
  "interp x xp fp =
     (if x > last xp then last fp
      else if x < hd xp then hd fp
      else case List.find (\<lambda>j. xp ! j \<le> x \<and> x < xp ! (j + 1)) [0..<length xp - 1] of
             None \<Rightarrow> last fp
           | Some j \<Rightarrow>
               if xp ! j = x then fp ! j
               else (fp ! (j + 1) - fp ! j) / (xp ! (j + 1) - xp ! j) * (x - xp ! j) + fp ! j)"

definition calibration_ratio :: "int \<Rightarrow> error + real" where
  "calibration_ratio boxsize =
     (if 2 ^ 512 - 2 ^ 458 \<le> \<bar>boxsize\<bar> then Inl OverflowError
      else
        let n = nat (boxsize * boxsize);
            x = grid;
            F = map (min_cdf n) x
        in Inr \<bar>interp (1 / 2) F x\<bar>)"

section \<open>The minimum filter of \<open>scipy.ndimage\<close>\<close>

text \<open>
  \<open>minimum_filter(image, (b, b))\<close> runs with the library's defaults: boundary mode
  \<open>reflect\<close> and origin 0. The filter is separable: it runs \<open>minimum_filter1d\<close> along
  axis 0 and then along axis 1, and skips every axis whose size is not greater than 1.
  Along a line of length \<open>n\<close>, output \<open>i\<close> is the minimum of the inputs at positions
  \<open>i - size // 2, ..., i - size // 2 + size - 1\<close>, a position outside the line being
  reflected about the edge of the line (\<open>d c b a | a b c d | d c b a\<close>).
  The memory that the library needs and the range of its C integers are outside the model;
  the theorems below consider box sizes and iteration counts below \<open>2^20\<close> in absolute
  value where these limits matter.
\<close>

definition reflect :: "nat \<Rightarrow> int \<Rightarrow> nat" where
  "reflect n i =
     (let r = i mod (2 * int n)
      in nat (if r < int n then r else 2 * int n - 1 - r))"

definition window :: "int \<Rightarrow> nat \<Rightarrow> int list" where
  "window sz i = map (\<lambda>k. int i - sz div 2 + int k) [0..<nat sz]"

definition minimum_filter1d_axis0 :: "image \<Rightarrow> int \<Rightarrow> image" where
  "minimum_filter1d_axis0 a sz =
     tabulate2 a (\<lambda>i j. min_list (map (\<lambda>p. a ! reflect (length a) p ! j) (window sz i)))"

definition minimum_filter1d_axis1 :: "image \<Rightarrow> int \<Rightarrow> image" where
  "minimum_filter1d_axis1 a sz =
     tabulate2 a (\<lambda>i j. min_list (map (\<lambda>p. a ! i ! reflect (length (a ! i)) p) (window sz j)))"

definition minimum_filter :: "image \<Rightarrow> int \<times> int \<Rightarrow> image" where
  "minimum_filter a box =
     (let a0 = (if fst box > 1 then minimum_filter1d_axis0 a (fst box) else a);
          a1 = (if snd box > 1 then minimum_filter1d_axis1 a0 (snd box) else a0)
      in a1)"

section \<open>\<open>make_noise_map\<close>\<close>

text \<open>
  After the ratio, \<open>make_noise_map\<close> follows the source line by line: the negated minimum
  filter divided by the ratio (line 59), the replacement of the values less than 0 by
  \<open>1.0e-10\<close> (lines 60, 61), the median (line 62) and the replacement of the values less
  than the median by the median (lines 63, 64).

  A window minimum of 0 gives the noise \<open>-0 / ratio\<close>: for a ratio other than 0 this is 0
  (in floating point the negative zero, which is not less than \<open>0.0\<close> either), so the guard
  of line 60 leaves it; for the ratio 0 it is NaN.

  \<open>numpy.median\<close> of the flattened array is NaN when the array is empty or holds a NaN.
  Otherwise it is the middle element of the sorted values, or the mean of the two middle
  elements when their number is even.
\<close>

fun finite_part :: "fl list \<Rightarrow> real list" where
  "finite_part [] = []"
| "finite_part (Fin v # xs) = v # finite_part xs"
| "finite_part (_ # xs) = finite_part xs"

definition sort_fl :: "fl list \<Rightarrow> fl list" where
  "sort_fl xs =
     filter (\<lambda>v. v = NInf) xs @ map Fin (sort (finite_part xs)) @ filter (\<lambda>v. v = PInf) xs"

definition median :: "fl list \<Rightarrow> fl" where
  "median xs =
     (if xs = [] \<or> NaN \<in> set xs then NaN
      else let s = sort_fl xs; n = length s
           in if odd n then s ! (n div 2)
              else fl_half (fl_add (s ! (n div 2 - 1)) (s ! (n div 2))))"

definition raw_noise :: "real \<Rightarrow> image \<Rightarrow> int \<Rightarrow> noise_map" where
  "raw_noise ratio restored_image boxsize =
     map (map (\<lambda>v. fl_div (- v) ratio)) (minimum_filter restored_image (boxsize, boxsize))"

definition floor_guard :: "noise_map \<Rightarrow> noise_map" where
  "floor_guard noise = map (map (\<lambda>v. if fl_less v (Fin 0) then Fin (1 / 10 ^ 10) else v)) noise"

definition median_clamp :: "fl \<Rightarrow> noise_map \<Rightarrow> noise_map" where
  "median_clamp median_noise noise =
     map (map (\<lambda>v. if fl_less v median_noise then median_noise else v)) noise"

definition noise_from_ratio :: "real \<Rightarrow> image \<Rightarrow> int \<Rightarrow> noise_map" where
  "noise_from_ratio ratio restored_image boxsize =
     (let noise = floor_guard (raw_noise ratio restored_image boxsize);
          median_noise = median (concat noise)
      in median_clamp median_noise noise)"

definition make_noise_map :: "image \<Rightarrow> int \<Rightarrow> error + noise_map" where
  "make_noise_map restored_image boxsize =
     ebind (calibration_ratio boxsize) (\<lambda>ratio.
       Inr (noise_from_ratio ratio restored_image boxsize))"

section \<open>Thresholding and border suppression\<close>

text \<open>Line 103: \<open>mask_image = input_image > threshold * noise_image\<close>, element by element.\<close>

definition threshold_mask :: "image \<Rightarrow> real \<Rightarrow> noise_map \<Rightarrow> mask" where
  "threshold_mask input_image t noise_image =
     tabulate2 input_image (\<lambda>i j.
       fl_less (fl_times t (noise_image ! i ! j)) (Fin (input_image ! i ! j)))"

text \<open>
  Lines 105 to 108 assign to a column and to a row through an index that may be
  negative. An index outside \<open>-n, ..., n - 1\<close> raises \<open>IndexError\<close>.
\<close>

definition py_index :: "nat \<Rightarrow> int \<Rightarrow> nat option" where
  "py_index n i =
     (if 0 \<le> i \<and> i < int n then Some (nat i)
      else if - int n \<le> i \<and> i < 0 then Some (nat (int n + i))
      else None)"

definition assign_col :: "mask \<Rightarrow> int \<Rightarrow> bool \<Rightarrow> error + mask" where
  "assign_col m j v =
     (case py_index (width m) j of
        None \<Rightarrow> Inl IndexError
      | Some c \<Rightarrow> Inr (map (\<lambda>r. r[c := v]) m))"

definition assign_row :: "mask \<Rightarrow> int \<Rightarrow> bool \<Rightarrow> error + mask" where
  "assign_row m i v =
     (case py_index (length m) i of
        None \<Rightarrow> Inl IndexError
      | Some r \<Rightarrow> Inr (m[r := replicate (length (m ! r)) v]))"

definition border_suppress :: "mask \<Rightarrow> error + mask" where
  "border_suppress mask_image =
     ebind (assign_col mask_image (- 1) False) (\<lambda>m1.
     ebind (assign_col m1 0 False) (\<lambda>m2.
     ebind (assign_row m2 0 False) (\<lambda>m3.
     assign_row m3 (- 1) False)))"

section \<open>Binary dilation and hole filling of \<open>scipy.ndimage\<close>\<close>

text \<open>
  \<open>binary_dilation(input, structure, iterations, mask, output, border_value)\<close> with the
  default structure, the cross of a pixel and its four direct neighbours. One pass sets
  a pixel when it or one of its four neighbours was set before the pass; a neighbour
  outside the array has the value \<open>border_value\<close>. When a mask is given, only the pixels
  at which the mask is true are modified. With \<open>iterations >= 1\<close> the pass is repeated
  \<open>iterations\<close> times; with \<open>iterations < 1\<close> it is repeated until the result does not
  change any more.
\<close>

definition pixel :: "bool \<Rightarrow> mask \<Rightarrow> int \<Rightarrow> int \<Rightarrow> bool" where
  "pixel bv x i j =
     (if 0 \<le> i \<and> i < int (length x) \<and> 0 \<le> j \<and> j < int (length (x ! nat i))
      then x ! nat i ! nat j else bv)"

definition dilation_step :: "bool \<Rightarrow> mask option \<Rightarrow> mask \<Rightarrow> mask" where
  "dilation_step bv msk x =
     tabulate2 x (\<lambda>i j.
       if (case msk of None \<Rightarrow> True | Some k \<Rightarrow> k ! i ! j)
       then pixel bv x (int i) (int j)
            \<or> pixel bv x (int i - 1) (int j) \<or> pixel bv x (int i + 1) (int j)
            \<or> pixel bv x (int i) (int j - 1) \<or> pixel bv x (int i) (int j + 1)
       else x ! i ! j)"

text \<open>
  The repetition until nothing changes ends: a pass never clears a pixel, so each pass
  that changes the array lowers the number of false pixels.
\<close>

definition count_false :: "mask \<Rightarrow> nat" where
  "count_false x = sum_list (map (\<lambda>r. length (filter Not r)) x)"

definition le_mask :: "mask \<Rightarrow> mask \<Rightarrow> bool" where
  "le_mask x y = list_all2 (list_all2 (\<lambda>a b. a \<longrightarrow> b)) x y"

function dilate_until_stable :: "bool \<Rightarrow> mask option \<Rightarrow> mask \<Rightarrow> mask" where
  "dilate_until_stable bv msk x =
     (let y = dilation_step bv msk x
      in if y = x then x else dilate_until_stable bv msk y)"
  by pat_completeness auto

definition binary_dilation :: "mask \<Rightarrow> int \<Rightarrow> mask option \<Rightarrow> bool \<Rightarrow> mask" where
  "binary_dilation input iterations msk border_value =
     (if iterations \<ge> 1 then (dilation_step border_value msk ^^ nat iterations) input
      else dilate_until_stable border_value msk input)"

text \<open>
  \<open>binary_fill_holes(input)\<close> dilates the empty array inside the complement of the input,
  with border value 1 and until nothing changes, and returns the complement of the result:
  the false pixels that the dilation reaches from outside the array stay false, every
  other pixel is true.
\<close>

definition binary_fill_holes :: "mask \<Rightarrow> mask" where
  "binary_fill_holes input =
     (let msk = map (map Not) input;
          tmp = map (map (\<lambda>_. False)) input;
          output = binary_dilation tmp (- 1) (Some msk) True
      in map (map Not) output)"

section \<open>\<open>main\<close>\<close>

text \<open>
  The options of \<open>main\<close> are given by the outcome of their conversion in lines 83 to 85:
  \<open>Some\<close> of the number, or \<open>None\<close> when \<open>float\<close> or \<open>int\<close> raises \<open>ValueError\<close>. The
  threshold is a finite number. Each positional argument stands for the image plane that
  \<open>get_image\<close> reads from the file it names. Writing the noise map and the mask to files is
  left out. After the conversions, lines 89 to 91 exit unless there is exactly one
  positional argument; no check of the range of an option is made.
\<close>

definition dilate_stage :: "mask \<Rightarrow> int \<Rightarrow> mask" where
  "dilate_stage mask_image d =
     (if d \<noteq> 0 then binary_dilation mask_image d None False else mask_image)"

definition fill_stage :: "mask \<Rightarrow> bool \<Rightarrow> mask" where
  "fill_stage mask_image fh = (if fh then binary_fill_holes mask_image else mask_image)"

record options =
  threshold :: "real option"
  boxsize :: "int option"
  dilate :: "int option"
  fill_holes :: bool

definition main :: "options \<Rightarrow> image list \<Rightarrow> error + mask" where
  "main opts args =
     (case threshold opts of None \<Rightarrow> Inl ValueError | Some t \<Rightarrow>
      case boxsize opts of None \<Rightarrow> Inl ValueError | Some b \<Rightarrow>
      case dilate opts of None \<Rightarrow> Inl ValueError | Some d \<Rightarrow>
      if length args \<noteq> 1 then Inl SysExit
      else
        let input_image = hd args
        in ebind (make_noise_map input_image b) (\<lambda>noise_image.
             let mask_image = threshold_mask input_image t noise_image
             in ebind (border_suppress mask_image) (\<lambda>suppressed.
                  Inr (fill_stage (dilate_stage suppressed d) (fill_holes opts)))))"

section \<open>Connectivity to the border\<close>

text \<open>
  A false pixel is connected to the border when it lies on the edge of the array, or when
  one of its four direct neighbours is a false pixel connected to the border.
\<close>

inductive border_connected :: "mask \<Rightarrow> nat \<Rightarrow> nat \<Rightarrow> bool" for m :: mask where
  edge: "i < length m \<Longrightarrow> j < length (m ! i) \<Longrightarrow> \<not> m ! i ! j \<Longrightarrow>
         i = 0 \<or> i + 1 = length m \<or> j = 0 \<or> j + 1 = length (m ! i) \<Longrightarrow>
         border_connected m i j"
| step: "border_connected m i' j' \<Longrightarrow>
         i < length m \<Longrightarrow> j < length (m ! i) \<Longrightarrow> \<not> m ! i ! j \<Longrightarrow>
         (i' = i \<and> (j' = j + 1 \<or> j' + 1 = j)) \<or> (j' = j \<and> (i' = i + 1 \<or> i' + 1 = i)) \<Longrightarrow>
         border_connected m i j"

code_pred border_connected .

text \<open>The array that \<open>binary_fill_holes\<close> complements: the false pixels reached from outside.\<close>

definition flood :: "mask \<Rightarrow> mask" where
  "flood m = dilate_until_stable True (Some (map (map Not) m)) (map (map (\<lambda>_. False)) m)"

section \<open>Test images\<close>

text \<open>
  \<open>spike H W r c v\<close> is the image of shape \<open>(H, W)\<close> that is 0 everywhere except \<open>v\<close> at
  \<open>(r, c)\<close>.
\<close>

definition spike :: "nat \<Rightarrow> nat \<Rightarrow> nat \<Rightarrow> nat \<Rightarrow> real \<Rightarrow> image" where
  "spike H W r c v = (replicate H (replicate W 0))[r := (replicate W 0)[c := v]]"

definition image7 :: image where
  "image7 =
    [[0, 0, 0, 0, 0, 0, 0],
     [0, 0, 0, 0, 0, 0, 0],
     [0, 0, 0, 0, 0, 0, 0],
     [0, 0, 0, 100, 0, 0, 0],
     [0, 0, 0, 0, 0, 0, 0],
     [0, 0, 0, 0, 0, 0, 0],
     [0, 0, 0, 0, 0, 0, 0]]"

definition image3 :: image where
  "image3 = [[0, 0, 0], [0, 100, 0], [0, 0, 0]]"

section \<open>Auxiliary notions\<close>

text \<open>
  The median of a list of finite values, and the value that the floor guard leaves of the
  window minimum \<open>v\<close> when the ratio \<open>r\<close> is not 0.
\<close>

definition median_real :: "real list \<Rightarrow> real" where
  "median_real vs =
     (let s = sort vs; n = length vs
      in if odd n then s ! (n div 2) else (s ! (n div 2 - 1) + s ! (n div 2)) / 2)"


section \<open>Termination of the repeated dilation\<close>

lemma length_tabulate2: "length (tabulate2 a f) = length a"
  by (simp add: tabulate2_def)

lemma length_tabulate2_row: "i < length a \<Longrightarrow> length (tabulate2 a f ! i) = length (a ! i)"
  by (simp add: tabulate2_def)

lemma nth_tabulate2: "i < length a \<Longrightarrow> j < length (a ! i) \<Longrightarrow> tabulate2 a f ! i ! j = f i j"
  by (simp add: tabulate2_def)

lemma pixel_in_range:
  "i < length x \<Longrightarrow> j < length (x ! i) \<Longrightarrow> pixel bv x (int i) (int j) = x ! i ! j"
  by (simp add: pixel_def)

lemma le_mask_iff:
  "le_mask x y \<longleftrightarrow>
     length x = length y \<and>
     (\<forall>i < length x. length (x ! i) = length (y ! i) \<and>
        (\<forall>j < length (x ! i). x ! i ! j \<longrightarrow> y ! i ! j))"
  by (auto simp: le_mask_def list_all2_conv_all_nth)

lemma dilation_step_extensive: "le_mask x (dilation_step bv msk x)"
  by (auto simp: le_mask_iff dilation_step_def length_tabulate2 length_tabulate2_row
      nth_tabulate2 pixel_in_range)

lemma row_false_mono:
  "list_all2 (\<lambda>a b. a \<longrightarrow> b) xs ys \<Longrightarrow>
     length (filter Not ys) \<le> length (filter Not xs) \<and>
     (xs \<noteq> ys \<longrightarrow> length (filter Not ys) < length (filter Not xs))"
  by (induction rule: list_all2_induct) auto

lemma count_false_mono:
  "le_mask x y \<Longrightarrow>
     count_false y \<le> count_false x \<and> (x \<noteq> y \<longrightarrow> count_false y < count_false x)"
  unfolding le_mask_def count_false_def
proof (induction rule: list_all2_induct)
  case Nil
  then show ?case by simp
next
  case (Cons r x s y)
  from row_false_mono[OF Cons(1)] Cons(3) show ?case by auto
qed

termination dilate_until_stable
proof (relation "measure (\<lambda>(bv, msk, x). count_false x)")
  show "wf (measure (\<lambda>(bv, msk, x). count_false x))" by simp
next
  fix bv msk x y
  assume "y = dilation_step bv msk x" "y \<noteq> x"
  with count_false_mono[OF dilation_step_extensive[of x bv msk]]
  show "((bv, msk, y), (bv, msk, x)) \<in> measure (\<lambda>(bv, msk, x). count_false x)"
    by auto
qed

declare dilate_until_stable.simps [simp del]

lemma dilate_until_stable_done:
  "dilation_step bv msk x = x \<Longrightarrow> dilate_until_stable bv msk x = x"
  by (simp add: dilate_until_stable.simps[of bv msk x])

lemma dilate_until_stable_again:
  "dilation_step bv msk x \<noteq> x \<Longrightarrow>
     dilate_until_stable bv msk x = dilate_until_stable bv msk (dilation_step bv msk x)"
  by (simp add: dilate_until_stable.simps[of bv msk x])

section \<open>Shapes\<close>

lemma rect_iff: "rect H W a \<longleftrightarrow> length a = H \<and> (\<forall>i < H. length (a ! i) = W)"
  by (auto simp: rect_def list_all_length)

lemma rect_width: "rect H W a \<Longrightarrow> 0 < H \<Longrightarrow> width a = W"
  by (cases a) (auto simp: rect_def width_def)

lemma rect_tabulate2: "rect H W a \<Longrightarrow> rect H W (tabulate2 a f)"
  by (simp add: rect_iff tabulate2_def)

lemma rect_map_map: "rect H W a \<Longrightarrow> rect H W (map (map g) a)"
  by (simp add: rect_iff)

lemma rect_replicate: "rect H W (replicate H (replicate W c))"
  by (simp add: rect_iff)

section \<open>Border suppression\<close>

lemma assign_col_rect:
  assumes "rect H W m" "0 < H" "c < W" "py_index W j = Some c"
  shows "assign_col m j v = Inr (map (\<lambda>r. r[c := v]) m)"
    and "rect H W (map (\<lambda>r. r[c := v]) m)"
  using assms by (auto simp: assign_col_def rect_width rect_iff)

lemma assign_row_rect:
  assumes "rect H W m" "r < H" "py_index H i = Some r"
  shows "assign_row m i v = Inr (m[r := replicate W v])"
    and "rect H W (m[r := replicate W v])"
  using assms by (auto simp: assign_row_def rect_iff nth_list_update)

lemma border_suppress_rect:
  assumes "rect H W m" "0 < H" "0 < W"
  shows "border_suppress m =
           Inr ((map (\<lambda>r. r[0 := False]) (map (\<lambda>r. r[W - 1 := False]) m))
                  [0 := replicate W False, H - 1 := replicate W False])"
proof -
  have i1: "py_index W (- 1) = Some (W - 1)" "py_index W 0 = Some 0"
       "py_index H (- 1) = Some (H - 1)" "py_index H 0 = Some 0"
    using assms by (auto simp: py_index_def nat_diff_distrib)
  let ?m1 = "map (\<lambda>r. r[W - 1 := False]) m"
  let ?m2 = "map (\<lambda>r. r[0 := False]) ?m1"
  let ?m3 = "?m2[0 := replicate W False]"
  have s1: "assign_col m (- 1) False = Inr ?m1" and r1: "rect H W ?m1"
    using assign_col_rect[OF assms(1,2) _ i1(1)] assms(3) by auto
  have s2: "assign_col ?m1 0 False = Inr ?m2" and r2: "rect H W ?m2"
    using assign_col_rect[OF r1 assms(2,3) i1(2)] by auto
  have s3: "assign_row ?m2 0 False = Inr ?m3" and r3: "rect H W ?m3"
    using assign_row_rect[OF r2 assms(2) i1(4)] by auto
  have s4: "assign_row ?m3 (- 1) False = Inr (?m3[H - 1 := replicate W False])"
    using assign_row_rect(1)[OF r3 _ i1(3)] assms(2) by auto
  show ?thesis
    unfolding border_suppress_def by (simp only: s1 s2 s3 s4 ebind_def sum.case)
qed

lemma border_suppress_cells:
  assumes "rect H W m" "0 < H" "0 < W"
  shows "\<exists>m'. border_suppress m = Inr m' \<and> rect H W m' \<and>
           (\<forall>i < H. \<forall>j < W. m' ! i ! j =
              (if i = 0 \<or> i = H - 1 \<or> j = 0 \<or> j = W - 1 then False else m ! i ! j))"
proof -
  let ?m' = "(map (\<lambda>r. r[0 := False]) (map (\<lambda>r. r[W - 1 := False]) m))
                  [0 := replicate W False, H - 1 := replicate W False]"
  have len: "length m = H" "\<And>i. i < H \<Longrightarrow> length (m ! i) = W"
    using assms(1) by (auto simp: rect_iff)
  have a: "border_suppress m = Inr ?m'" by (rule border_suppress_rect[OF assms])
  have b: "rect H W ?m'"
    using len by (auto simp: rect_iff nth_list_update)
  have c: "?m' ! i ! j = (if i = 0 \<or> i = H - 1 \<or> j = 0 \<or> j = W - 1 then False else m ! i ! j)"
    if "i < H" "j < W" for i j
    using that len by (auto simp: nth_list_update)
  from a b c show ?thesis by blast
qed

text \<open>
  An array with no row or no column is outside the data model (\<open>H, W > 0\<close>); on it the
  indexing of lines 105 to 108 raises \<open>IndexError\<close>.
\<close>

lemma border_suppress_no_rows: "border_suppress [] = Inl IndexError"
  by (simp add: border_suppress_def assign_col_def width_def py_index_def ebind_def)

lemma border_suppress_no_columns: "border_suppress [[]] = Inl IndexError"
  by (simp add: border_suppress_def assign_col_def width_def py_index_def ebind_def)

text \<open>
  C5. On a mask of shape \<open>(H, W)\<close> with \<open>H, W > 0\<close> (the shapes of the data model) border
  suppression succeeds and keeps the shape; row 0, row \<open>H - 1\<close>, column 0 and column
  \<open>W - 1\<close> of the result are false and every other element is the element of the input;
  when \<open>H \<le> 2\<close> or \<open>W \<le> 2\<close> no element of the result is true.
\<close>

theorem border_suppress_frame:
  assumes "rect H W m" "0 < H" "0 < W"
  shows "\<exists>m'. border_suppress m = Inr m' \<and> rect H W m' \<and>
           (\<forall>i < H. \<forall>j < W. m' ! i ! j =
              (if i = 0 \<or> i = H - 1 \<or> j = 0 \<or> j = W - 1 then False else m ! i ! j)) \<and>
           ((H \<le> 2 \<or> W \<le> 2) \<longrightarrow> true_set m' = {})"
proof -
  from border_suppress_cells[OF assms] obtain m' where
    a: "border_suppress m = Inr m'" and b: "rect H W m'" and
    c: "\<forall>i < H. \<forall>j < W. m' ! i ! j =
              (if i = 0 \<or> i = H - 1 \<or> j = 0 \<or> j = W - 1 then False else m ! i ! j)"
    by blast
  have d: "true_set m' = {}" if small: "H \<le> 2 \<or> W \<le> 2"
  proof -
    have "\<not> m' ! i ! j" if ij: "i < length m'" "j < length (m' ! i)" for i j
    proof -
      from ij b have "i < H" "j < W" by (auto simp: rect_iff)
      moreover from this small have "i = 0 \<or> i = H - 1 \<or> j = 0 \<or> j = W - 1" by arith
      ultimately show ?thesis using c by simp
    qed
    then show ?thesis unfolding true_set_def by blast
  qed
  from a b c d show ?thesis by blast
qed

theorem border_suppress_frame_witness:
  "rect 3 3 [[True, True, True], [True, True, True], [True, True, True]] \<and>
   (\<exists>m'. border_suppress [[True, True, True], [True, True, True], [True, True, True]] = Inr m' \<and>
      rect 3 3 m' \<and> \<not> m' ! 0 ! 1 \<and> \<not> m' ! 1 ! 2 \<and> m' ! 1 ! 1) \<and>
   rect 2 3 [[True, True, True], [True, True, True]] \<and>
   (\<exists>m'. border_suppress [[True, True, True], [True, True, True]] = Inr m' \<and> true_set m' = {})"
proof -
  let ?a = "[[True, True, True], [True, True, True], [True, True, True]]"
  let ?b = "[[True, True, True], [True, True, True]]"
  have ra: "rect 3 3 ?a" and rb: "rect 2 3 ?b" by (simp_all add: rect_def)
  from border_suppress_frame[OF ra] obtain m' where
    a: "border_suppress ?a = Inr m'" "rect 3 3 m'" and
    c: "\<forall>i < 3. \<forall>j < 3. m' ! i ! j =
          (if i = 0 \<or> i = 3 - 1 \<or> j = 0 \<or> j = 3 - 1 then False else ?a ! i ! j)"
    by auto
  have "\<not> m' ! 0 ! 1" using c[rule_format, of 0 1] by simp
  moreover have "\<not> m' ! 1 ! 2" using c[rule_format, of 1 2] by simp
  moreover have "m' ! 1 ! 1" using c[rule_format, of 1 1] by simp
  ultimately have A: "\<exists>m'. border_suppress ?a = Inr m' \<and> rect 3 3 m' \<and> \<not> m' ! 0 ! 1 \<and> \<not> m' ! 1 ! 2 \<and> m' ! 1 ! 1"
    using a by blast
  from border_suppress_frame[OF rb] have B: "\<exists>m'. border_suppress ?b = Inr m' \<and> true_set m' = {}"
    by auto
  from ra rb A B show ?thesis by blast
qed

section \<open>Dilation\<close>

lemma rect_eqI:
  assumes "rect H W a" "rect H W b" "\<And>i j. i < H \<Longrightarrow> j < W \<Longrightarrow> a ! i ! j = b ! i ! j"
  shows "a = b"
proof (rule nth_equalityI)
  show "length a = length b" using assms(1,2) by (simp add: rect_iff)
next
  fix i assume "i < length a"
  then have i: "i < H" using assms(1) by (simp add: rect_iff)
  show "a ! i = b ! i"
  proof (rule nth_equalityI)
    show "length (a ! i) = length (b ! i)" using assms(1,2) i by (simp add: rect_iff)
  next
    fix j assume "j < length (a ! i)"
    then have "j < W" using assms(1) i by (simp add: rect_iff)
    with i show "a ! i ! j = b ! i ! j" by (rule assms(3))
  qed
qed

lemma true_set_rect:
  "rect H W m \<Longrightarrow> true_set m = {(i, j). i < H \<and> j < W \<and> m ! i ! j}"
  by (auto simp: true_set_def rect_iff)

lemma pixel_False_iff:
  "pixel False x a b \<longleftrightarrow> 0 \<le> a \<and> 0 \<le> b \<and> (nat a, nat b) \<in> true_set x"
  by (auto simp: pixel_def true_set_def)

lemma rect_dilation_step: "rect H W x \<Longrightarrow> rect H W (dilation_step bv msk x)"
  unfolding dilation_step_def by (rule rect_tabulate2)

lemma true_set_dilation_step:
  assumes "rect H W x"
  shows "true_set (dilation_step False None x) =
           {(i, j). i < H \<and> j < W \<and>
              ((i, j) \<in> true_set x \<or> (0 < i \<and> (i - 1, j) \<in> true_set x) \<or> (i + 1, j) \<in> true_set x
               \<or> (0 < j \<and> (i, j - 1) \<in> true_set x) \<or> (i, j + 1) \<in> true_set x)}"
proof -
  have cell: "dilation_step False None x ! i ! j =
       ((i, j) \<in> true_set x \<or> (0 < i \<and> (i - 1, j) \<in> true_set x) \<or> (i + 1, j) \<in> true_set x
               \<or> (0 < j \<and> (i, j - 1) \<in> true_set x) \<or> (i, j + 1) \<in> true_set x)"
    if ij: "i < H" "j < W" for i j
  proof -
    have in_range: "i < length x" "j < length (x ! i)" using ij assms by (simp_all add: rect_iff)
    have n1: "nat (int i - 1) = i - 1" "nat (int j - 1) = j - 1"
         "nat (int i + 1) = i + 1" "nat (int j + 1) = j + 1" by simp_all
    show ?thesis
      unfolding dilation_step_def nth_tabulate2[OF in_range]
      by (simp add: pixel_False_iff n1 del: of_nat_Suc)
  qed
  show ?thesis
    unfolding true_set_rect[OF rect_dilation_step[OF assms]] using cell by auto
qed

lemma dilate_stage_once: "dilate_stage m 1 = dilation_step False None m"
  by (simp add: dilate_stage_def binary_dilation_def)

lemma le_mask_true_set: "le_mask x y \<Longrightarrow> true_set x \<subseteq> true_set y"
  by (auto simp: le_mask_iff true_set_def)

lemma dilate_stage_zero: "dilate_stage m 0 = m"
  by (simp add: dilate_stage_def)

lemma dilate_stage_pos: "1 \<le> k \<Longrightarrow> dilate_stage m k = (dilation_step False None ^^ nat k) m"
  by (simp add: dilate_stage_def binary_dilation_def)

text \<open>
  C6. The dilation stage of \<open>main\<close> (lines 110 to 113) is monotone in the number of
  iterations: for every mask and every \<open>k \<ge> 0\<close> the true set after \<open>k\<close> iterations is a
  subset of the true set after \<open>k + 1\<close> iterations, and with 0 iterations the mask is
  returned as it is.
\<close>

theorem dilate_monotone:
  assumes "0 \<le> k"
  shows "true_set (dilate_stage m k) \<subseteq> true_set (dilate_stage m (k + 1)) \<and> dilate_stage m 0 = m"
proof -
  have next_pass: "dilate_stage m (k + 1) = dilation_step False None (dilate_stage m k)"
  proof (cases "k = 0")
    case True
    then show ?thesis by (simp add: dilate_stage_zero dilate_stage_once)
  next
    case False
    with assms have k: "1 \<le> k" by simp
    then have "nat (k + 1) = Suc (nat k)" by simp
    with k show ?thesis by (simp add: dilate_stage_pos)
  qed
  have "true_set (dilate_stage m k) \<subseteq> true_set (dilation_step False None (dilate_stage m k))"
    by (rule le_mask_true_set[OF dilation_step_extensive])
  with next_pass show ?thesis by (simp add: dilate_stage_zero)
qed

theorem dilate_monotone_witness:
  "(0::int) \<le> 2 \<and>
   true_set (dilate_stage [[False, False, False], [False, True, False], [False, False, False]] 2)
     \<subseteq> true_set (dilate_stage [[False, False, False], [False, True, False], [False, False, False]] (2 + 1)) \<and>
   dilate_stage [[False, False, False], [False, True, False], [False, False, False]] 0
     = [[False, False, False], [False, True, False], [False, False, False]]"
proof -
  have h: "(0::int) \<le> 2" by simp
  from dilate_monotone[OF h] h show ?thesis by blast
qed

section \<open>Hole filling\<close>

lemma shape_iff:
  "map length x = map length y \<longleftrightarrow>
     length x = length y \<and> (\<forall>i < length x. length (x ! i) = length (y ! i))"
  by (auto simp: list_eq_iff_nth_eq)

lemma mask_eqI:
  assumes "map length x = map length y"
    and "\<And>i j. i < length x \<Longrightarrow> j < length (x ! i) \<Longrightarrow> x ! i ! j = y ! i ! j"
  shows "x = y"
  using assms by (auto simp: shape_iff list_eq_iff_nth_eq)

lemma shape_tabulate2: "map length (tabulate2 a f) = map length a"
  by (simp add: shape_iff length_tabulate2 length_tabulate2_row)

lemma shape_map_map: "map length (map (map g) x) = map length x"
  by (induction x) auto

lemma shape_dilation_step: "map length (dilation_step bv msk x) = map length x"
  by (simp add: dilation_step_def shape_tabulate2)

lemma dilation_step_nth:
  "i < length x \<Longrightarrow> j < length (x ! i) \<Longrightarrow>
   dilation_step bv (Some k) x ! i ! j =
     (if k ! i ! j
      then x ! i ! j \<or> pixel bv x (int i - 1) (int j) \<or> pixel bv x (int i + 1) (int j)
           \<or> pixel bv x (int i) (int j - 1) \<or> pixel bv x (int i) (int j + 1)
      else x ! i ! j)"
  by (simp add: dilation_step_def nth_tabulate2 pixel_in_range)

lemma dilation_step_eqI:
  assumes "map length y = map length x"
    and "\<And>i j. i < length x \<Longrightarrow> j < length (x ! i) \<Longrightarrow> dilation_step bv msk x ! i ! j = y ! i ! j"
  shows "dilation_step bv msk x = y"
proof (rule mask_eqI)
  show "map length (dilation_step bv msk x) = map length y"
    using assms(1) by (simp add: shape_dilation_step)
next
  fix i j
  assume "i < length (dilation_step bv msk x)" "j < length (dilation_step bv msk x ! i)"
  then have "i < length x" "j < length (x ! i)"
    using shape_dilation_step[of bv msk x] by (auto simp: shape_iff)
  then show "dilation_step bv msk x ! i ! j = y ! i ! j" by (rule assms(2))
qed

lemma shape_dilate_until_stable: "map length (dilate_until_stable bv msk x) = map length x"
proof (induction bv msk x rule: dilate_until_stable.induct)
  case (1 bv msk x)
  show ?case
  proof (cases "dilation_step bv msk x = x")
    case True
    then show ?thesis by (simp add: dilate_until_stable_done)
  next
    case False
    with 1[OF refl False] show ?thesis
      by (simp add: dilate_until_stable_again shape_dilation_step)
  qed
qed

lemma le_mask_refl: "le_mask x x"
  by (simp add: le_mask_iff)

lemma le_mask_trans: "le_mask x y \<Longrightarrow> le_mask y z \<Longrightarrow> le_mask x z"
  by (auto simp: le_mask_iff)

lemma dilate_until_stable_extensive: "le_mask x (dilate_until_stable bv msk x)"
proof (induction bv msk x rule: dilate_until_stable.induct)
  case (1 bv msk x)
  show ?case
  proof (cases "dilation_step bv msk x = x")
    case True
    then show ?thesis by (simp add: dilate_until_stable_done le_mask_refl)
  next
    case False
    from 1[OF refl False] le_mask_trans[OF dilation_step_extensive] False show ?thesis
      by (simp add: dilate_until_stable_again)
  qed
qed

lemma dilate_until_stable_fixed:
  "dilation_step bv msk (dilate_until_stable bv msk x) = dilate_until_stable bv msk x"
proof (induction bv msk x rule: dilate_until_stable.induct)
  case (1 bv msk x)
  show ?case
  proof (cases "dilation_step bv msk x = x")
    case True
    then show ?thesis by (simp add: dilate_until_stable_done)
  next
    case False
    with 1[OF refl False] show ?thesis
      by (simp add: dilate_until_stable_again)
  qed
qed

lemma dilate_until_stable_within:
  "i < length x \<Longrightarrow> j < length (x ! i) \<Longrightarrow> dilate_until_stable bv (Some k) x ! i ! j \<Longrightarrow>
     x ! i ! j \<or> k ! i ! j"
proof (induction bv "Some k" x rule: dilate_until_stable.induct)
  case (1 bv x)
  show ?case
  proof (cases "dilation_step bv (Some k) x = x")
    case True
    with 1(4) show ?thesis by (simp add: dilate_until_stable_done)
  next
    case False
    let ?y = "dilation_step bv (Some k) x"
    have sh: "map length ?y = map length x" by (rule shape_dilation_step)
    with 1(2,3) have r: "i < length ?y" "j < length (?y ! i)" by (auto simp: shape_iff)
    from 1(4) False have "dilate_until_stable bv (Some k) ?y ! i ! j"
      by (simp add: dilate_until_stable_again)
    from 1(1)[OF refl False r this] have "?y ! i ! j \<or> k ! i ! j" .
    then show ?thesis using 1(2,3) by (auto simp: dilation_step_nth split: if_splits)
  qed
qed

lemma dilate_until_stable_remask:
  "dilate_until_stable bv (Some (dilate_until_stable bv (Some k) x)) x
     = dilate_until_stable bv (Some k) x"
proof (induction bv "Some k" x rule: dilate_until_stable.induct)
  case (1 bv x)
  let ?R = "dilate_until_stable bv (Some k) x"
  show ?case
  proof (cases "dilation_step bv (Some k) x = x")
    case True
    then have R: "?R = x" by (simp add: dilate_until_stable_done)
    have "dilation_step bv (Some x) x = x"
      by (rule dilation_step_eqI) (auto simp: dilation_step_nth)
    then show ?thesis by (simp add: R dilate_until_stable_done)
  next
    case False
    let ?y = "dilation_step bv (Some k) x"
    have R: "?R = dilate_until_stable bv (Some k) ?y"
      using False by (simp add: dilate_until_stable_again)
    have IH: "dilate_until_stable bv (Some ?R) ?y = ?R"
      using 1[OF refl False] R by simp
    have xR: "le_mask x ?R" by (rule dilate_until_stable_extensive)
    have yR: "le_mask ?y ?R" unfolding R by (rule dilate_until_stable_extensive)
    have same: "dilation_step bv (Some ?R) x = ?y"
    proof (rule dilation_step_eqI)
      show "map length ?y = map length x"
        by (simp add: shape_dilation_step)
    next
      fix i j
      assume ij: "i < length x" "j < length (x ! i)"
      have within: "?R ! i ! j \<Longrightarrow> x ! i ! j \<or> k ! i ! j"
        by (rule dilate_until_stable_within[OF ij])
      have below: "\<not> ?R ! i ! j \<Longrightarrow> \<not> x ! i ! j \<and> \<not> ?y ! i ! j"
        using xR yR ij shape_dilation_step[of bv "Some k" x]
        by (auto simp: le_mask_iff shape_iff)
      show "dilation_step bv (Some ?R) x ! i ! j = ?y ! i ! j"
      proof (cases "?R ! i ! j")
        case True
        with within show ?thesis using ij by (auto simp: dilation_step_nth)
      next
        case False
        with below show ?thesis using ij by (simp add: dilation_step_nth[of i x j bv ?R])
      qed
    qed
    with False have "dilation_step bv (Some ?R) x \<noteq> x" by simp
    then have "dilate_until_stable bv (Some ?R) x = dilate_until_stable bv (Some ?R) (dilation_step bv (Some ?R) x)"
      by (rule dilate_until_stable_again)
    also have "\<dots> = ?R" unfolding same by (rule IH)
    finally show ?thesis .
  qed
qed

lemma binary_fill_holes_flood: "binary_fill_holes m = map (map Not) (flood m)"
  by (simp add: binary_fill_holes_def binary_dilation_def flood_def)

lemma shape_flood: "map length (flood m) = map length m"
  by (simp add: flood_def shape_dilate_until_stable)

lemma map_map_Not_Not: "map (map Not) (map (map Not) x) = x"
  by (simp add: map_idI)

lemma blank_same_shape:
  "map length x = map length y \<Longrightarrow> map (map (\<lambda>_. False)) x = map (map (\<lambda>_. False)) y"
proof (rule mask_eqI)
  assume s: "map length x = map length y"
  then show "map length (map (map (\<lambda>_. False)) x) = map length (map (map (\<lambda>_. False)) y)"
    by (simp only: shape_map_map)
  fix i j
  assume "i < length (map (map (\<lambda>_. False)) x)" "j < length (map (map (\<lambda>_. False)) x ! i)"
  with s show "map (map (\<lambda>_. False)) x ! i ! j = map (map (\<lambda>_. False)) y ! i ! j"
    by (auto simp: shape_iff)
qed

lemma flood_fill_flood: "flood (map (map Not) (flood m)) = flood m"
proof -
  have "map length (map (map Not) (flood m)) = map length m"
    using shape_flood[of m] by (simp only: shape_map_map)
  then have z: "map (map (\<lambda>_. False)) (map (map Not) (flood m)) = map (map (\<lambda>_. False)) m"
    by (rule blank_same_shape)
  show ?thesis
    unfolding flood_def[of "map (map Not) (flood m)"] z map_map_Not_Not
    unfolding flood_def by (rule dilate_until_stable_remask)
qed

lemma binary_fill_holes_idem: "binary_fill_holes (binary_fill_holes m) = binary_fill_holes m"
  by (simp add: binary_fill_holes_flood flood_fill_flood)

lemma flood_nth:
  assumes "i < length m" "j < length (m ! i)"
  shows "flood m ! i ! j =
           (if \<not> m ! i ! j
            then flood m ! i ! j \<or> pixel True (flood m) (int i - 1) (int j)
                 \<or> pixel True (flood m) (int i + 1) (int j)
                 \<or> pixel True (flood m) (int i) (int j - 1) \<or> pixel True (flood m) (int i) (int j + 1)
            else flood m ! i ! j)"
proof -
  have r: "i < length (flood m)" "j < length (flood m ! i)"
    using assms shape_flood[of m] by (auto simp: shape_iff)
  have "flood m = dilation_step True (Some (map (map Not) m)) (flood m)"
    unfolding flood_def by (rule dilate_until_stable_fixed[symmetric])
  then have "flood m ! i ! j = dilation_step True (Some (map (map Not) m)) (flood m) ! i ! j"
    by simp
  also have "\<dots> = (if \<not> m ! i ! j
            then flood m ! i ! j \<or> pixel True (flood m) (int i - 1) (int j)
                 \<or> pixel True (flood m) (int i + 1) (int j)
                 \<or> pixel True (flood m) (int i) (int j - 1) \<or> pixel True (flood m) (int i) (int j + 1)
            else flood m ! i ! j)"
    using assms by (simp add: dilation_step_nth[OF r])
  finally show ?thesis .
qed

lemma border_connected_flood:
  "border_connected m i j \<Longrightarrow> flood m ! i ! j"
proof (induction rule: border_connected.induct)
  case (edge i j)
  have r: "length (flood m) = length m" "length (flood m ! i) = length (m ! i)"
    using edge(1) shape_flood[of m] by (auto simp: shape_iff)
  from edge(4) have "pixel True (flood m) (int i - 1) (int j) \<or> pixel True (flood m) (int i + 1) (int j)
      \<or> pixel True (flood m) (int i) (int j - 1) \<or> pixel True (flood m) (int i) (int j + 1)"
    using edge(1,2) r by (auto simp: pixel_def)
  then show ?case using flood_nth[OF edge(1,2)] edge(3) by simp
next
  case (step i' j' i j)
  from step(1) have r': "i' < length m" "j' < length (m ! i')"
    by (auto elim: border_connected.cases)
  then have "pixel True (flood m) (int i') (int j') = flood m ! i' ! j'"
    using shape_flood[of m] by (intro pixel_in_range) (auto simp: shape_iff)
  with step(6) have p: "pixel True (flood m) (int i') (int j')" by simp
  from step(5) have "pixel True (flood m) (int i - 1) (int j) \<or> pixel True (flood m) (int i + 1) (int j)
      \<or> pixel True (flood m) (int i) (int j - 1) \<or> pixel True (flood m) (int i) (int j + 1)"
  proof (elim disjE conjE)
    assume "i' = i" "j' = j + 1"
    with p have "pixel True (flood m) (int i) (int j + 1)" by (simp add: add.commute)
    then show ?thesis by simp
  next
    assume "i' = i" "j' + 1 = j"
    then have "int j' = int j - 1" by simp
    with p \<open>i' = i\<close> have "pixel True (flood m) (int i) (int j - 1)" by simp
    then show ?thesis by simp
  next
    assume "j' = j" "i' = i + 1"
    with p have "pixel True (flood m) (int i + 1) (int j)" by (simp add: add.commute)
    then show ?thesis by simp
  next
    assume "j' = j" "i' + 1 = i"
    then have "int i' = int i - 1" by simp
    with p \<open>j' = j\<close> have "pixel True (flood m) (int i - 1) (int j)" by simp
    then show ?thesis by simp
  qed
  then show ?case using flood_nth[OF step(2,3)] step(4) by simp
qed

lemma border_connected_false: "border_connected m i j \<Longrightarrow> \<not> m ! i ! j"
  by (auto elim: border_connected.cases)

text \<open>
  C8. The hole-filling stage of \<open>main\<close> (lines 115 to 117) is idempotent: applied to its
  own output it changes nothing. A false pixel that is connected to the edge of the image
  through false pixels stays false.
\<close>

theorem fill_holes_idempotent:
  "fill_stage (fill_stage m fh) fh = fill_stage m fh \<and>
   (border_connected m i j \<longrightarrow> \<not> fill_stage m fh ! i ! j)"
proof (cases fh)
  case False
  then show ?thesis by (auto simp: fill_stage_def dest: border_connected_false)
next
  case True
  have "\<not> binary_fill_holes m ! i ! j" if bc: "border_connected m i j"
  proof -
    from bc have r: "i < length m" "j < length (m ! i)" by (auto elim: border_connected.cases)
    then have "i < length (flood m)" "j < length (flood m ! i)"
      using shape_flood[of m] by (auto simp: shape_iff)
    then show ?thesis using border_connected_flood[OF bc] by (simp add: binary_fill_holes_flood)
  qed
  with True show ?thesis by (simp add: fill_stage_def binary_fill_holes_idem)
qed

theorem fill_holes_idempotent_witness:
  "fill_stage (fill_stage [[False, True, True, True], [False, True, False, True], [False, True, True, True]] True) True
     = fill_stage [[False, True, True, True], [False, True, False, True], [False, True, True, True]] True \<and>
   border_connected [[False, True, True, True], [False, True, False, True], [False, True, True, True]] 1 0 \<and>
   \<not> fill_stage [[False, True, True, True], [False, True, False, True], [False, True, True, True]] True ! 1 ! 0 \<and>
   fill_stage [[False, True, True, True], [False, True, False, True], [False, True, True, True]] True
     = [[False, True, True, True], [False, True, True, True], [False, True, True, True]]"
proof -
  let ?m = "[[False, True, True, True], [False, True, False, True], [False, True, True, True]]"
  have bc: "border_connected ?m 1 0" by (rule border_connected.edge) simp_all
  have v: "fill_stage ?m True = [[False, True, True, True], [False, True, True, True], [False, True, True, True]]"
    by code_simp
  from fill_holes_idempotent[of ?m True 1 0] bc v show ?thesis by blast
qed

section \<open>The calibration ratio: the error function, the grid and the interpolation\<close>

lemma odd_fact_pos: "0 < odd_fact n"
  by (induction n) auto

lemma fact_le_odd_fact: "fact n \<le> odd_fact n"
proof (induction n)
  case 0
  then show ?case by simp
next
  case (Suc n)
  have "fact (Suc n) = Suc n * fact n" by simp
  also have "\<dots> \<le> (2 * n + 3) * odd_fact n"
    using Suc by (intro mult_mono) auto
  finally show ?case by simp
qed

lemma erf_term_bound:
  "\<bar>erf_term x n\<bar> \<le> \<bar>x\<bar> * (inverse (fact n) * (2 * (x * x)) ^ n)"
proof -
  have f: "(0::real) < fact n" by simp
  have o: "real (fact n) \<le> real (odd_fact n)"
    using fact_le_odd_fact[of n] by (metis of_nat_fact of_nat_le_iff)
  have p: "x ^ (2 * n + 1) = x * (x * x) ^ n"
    by (simp add: power_mult power2_eq_square)
  have e: "erf_term x n = x * ((2 * (x * x)) ^ n / real (odd_fact n))"
    unfolding erf_term_def p by (simp add: power_mult_distrib)
  have nn: "0 \<le> (2 * (x * x)) ^ n / real (odd_fact n)"
    by (intro divide_nonneg_nonneg zero_le_power) auto
  have "\<bar>erf_term x n\<bar> = \<bar>x\<bar> * (2 * (x * x)) ^ n / real (odd_fact n)"
    unfolding e abs_mult abs_of_nonneg[OF nn] by simp
  also have "\<dots> \<le> \<bar>x\<bar> * (2 * (x * x)) ^ n / fact n"
    using o f by (intro divide_left_mono mult_nonneg_nonneg) (auto simp: odd_fact_pos)
  finally show ?thesis by (simp add: field_simps)
qed

lemma summable_bound: "summable (\<lambda>n. \<bar>x::real\<bar> * (inverse (fact n) * (2 * (x * x)) ^ n))"
  by (intro summable_mult summable_exp)

lemma summable_erf_term: "summable (erf_term x)"
proof (rule summable_comparison_test'[OF summable_bound[of x], of 0])
  fix n
  show "norm (erf_term x n) \<le> \<bar>x\<bar> * (inverse (fact n) * (2 * (x * x)) ^ n)"
    using erf_term_bound[of x n] by simp
qed

lemma erf_term_minus: "erf_term (- x) n = - erf_term x n"
  by (simp add: erf_term_def)

lemma erf_minus: "erf (- x) = - erf x"
proof -
  have "(\<Sum>n. erf_term (- x) n) = - (\<Sum>n. erf_term x n)"
    unfolding erf_term_minus by (rule suminf_minus[OF summable_erf_term])
  then show ?thesis by (simp add: erf_def)
qed

lemma erf_pos: "0 < x \<Longrightarrow> 0 < erf x"
proof -
  assume x: "0 < x"
  have "0 < erf_term x n" for n
    using x by (simp add: erf_term_def odd_fact_pos)
  then have "0 < (\<Sum>n. erf_term x n)"
    by (intro suminf_pos summable_erf_term)
  then show ?thesis by (simp add: erf_def)
qed

lemma erf_neg: "x < 0 \<Longrightarrow> erf x < 0"
  using erf_pos[of "- x"] by (simp add: erf_minus)

lemma erf_zero: "erf 0 = 0"
  using erf_minus[of 0] by simp

lemma erf_upper:
  assumes "0 \<le> x"
  shows "erf x \<le> 2 * (x * exp (2 * (x * x)))"
proof -
  have le: "erf_term x n \<le> x * (inverse (fact n) * (2 * (x * x)) ^ n)" for n
    using erf_term_bound[of x n] assms by simp
  have "(\<Sum>n. erf_term x n) \<le> (\<Sum>n. x * (inverse (fact n) * (2 * (x * x)) ^ n))"
    using summable_bound[of x] assms by (intro suminf_le le summable_erf_term) simp
  also have "\<dots> = x * (\<Sum>n. inverse (fact n) * (2 * (x * x)) ^ n)"
    by (rule suminf_mult[OF summable_exp])
  also have "(\<Sum>n. inverse (fact n) * (2 * (x * x)) ^ n) = exp (2 * (x * x))"
    by (simp add: exp_def field_simps)
  finally have s: "(\<Sum>n. erf_term x n) \<le> x * exp (2 * (x * x))" .
  have s0: "0 \<le> (\<Sum>n. erf_term x n)"
    using assms by (intro suminf_nonneg summable_erf_term) (simp add: erf_term_def)
  have "1 \<le> sqrt pi" using pi_ge_two by (simp add: real_le_rsqrt)
  then have c: "2 / sqrt pi \<le> 2" by (simp add: field_simps)
  have c0: "0 \<le> 2 / sqrt pi" by simp
  have e: "exp (- (x * x)) \<le> 1" by simp
  have ce: "2 / sqrt pi * exp (- (x * x)) \<le> 2 * 1"
    using c c0 e by (intro mult_mono) auto
  have "2 / sqrt pi * exp (- (x * x)) * (\<Sum>n. erf_term x n) \<le> 2 * 1 * (x * exp (2 * (x * x)))"
    by (rule mult_mono[OF ce s]) (use s0 in auto)
  then show ?thesis unfolding erf_def by simp
qed


lemma grid_points_pos: "0 < grid_points"
  by (simp add: grid_points_def)

lemma length_grid: "length grid = grid_points"
  by (simp add: grid_def)

lemma nth_grid: "k < grid_points \<Longrightarrow> grid ! k = linspace_pt k"
  by (simp add: grid_def)

lemma upt_grid_nonempty: "[0..<grid_points] \<noteq> []"
  using grid_points_pos by simp

lemma hd_grid: "hd grid = - 10"
  using grid_points_pos by (simp add: grid_def hd_map[OF upt_grid_nonempty] linspace_pt_def)

lemma last_grid: "last grid = 10"
proof -
  have "last grid = linspace_pt (grid_points - 1)"
    using grid_points_pos by (simp add: grid_def last_map[OF upt_grid_nonempty])
  also have "\<dots> = 10" by (simp add: grid_points_def linspace_pt_def)
  finally show ?thesis .
qed

lemma linspace_pt_mono: "j < k \<Longrightarrow> linspace_pt j < linspace_pt k"
  by (simp add: linspace_pt_def)

lemma linspace_pt_neg_iff: "linspace_pt k < 0 \<longleftrightarrow> k \<le> 499"
proof -
  have "linspace_pt k < 0 \<longleftrightarrow> real k * 20 < 9990"
    by (simp add: linspace_pt_def field_simps)
  also have "\<dots> \<longleftrightarrow> real (k * 20) < real 9990" by simp
  also have "\<dots> \<longleftrightarrow> k * 20 < 9990" by (rule of_nat_less_iff)
  also have "\<dots> \<longleftrightarrow> k \<le> 499" by arith
  finally show ?thesis .
qed

lemma linspace_pt_pos_iff: "0 < linspace_pt k \<longleftrightarrow> 500 \<le> k"
proof -
  have "0 < linspace_pt k \<longleftrightarrow> 9990 < real k * 20"
    by (simp add: linspace_pt_def field_simps)
  also have "\<dots> \<longleftrightarrow> real 9990 < real (k * 20)" by simp
  also have "\<dots> \<longleftrightarrow> 9990 < k * 20" by (rule of_nat_less_iff)
  also have "\<dots> \<longleftrightarrow> 500 \<le> k" by arith
  finally show ?thesis .
qed

lemma linspace_pt_nonzero: "linspace_pt k \<noteq> 0"
  using linspace_pt_neg_iff[of k] linspace_pt_pos_iff[of k] by (cases "k \<le> 499") auto

lemma linspace_pt_499_500: "linspace_pt 499 = - (10 / 999)" "linspace_pt 500 = 10 / 999"
  by (simp_all add: linspace_pt_def)

lemma norm_cdf_minus: "norm_cdf (- x) = 1 - norm_cdf x"
  by (simp add: norm_cdf_def erf_minus field_simps)

lemma norm_cdf_pos: "0 < x \<Longrightarrow> 1 / 2 < norm_cdf x"
  using erf_pos[of "x / sqrt 2"] by (simp add: norm_cdf_def)

lemma norm_cdf_neg: "x < 0 \<Longrightarrow> norm_cdf x < 1 / 2"
  using erf_neg[of "x / sqrt 2"] by (simp add: norm_cdf_def divide_neg_pos)


lemma find_bracket:
  assumes "List.find (\<lambda>j. xp ! j \<le> x \<and> x < xp ! (j + 1)) [0..<m] = Some j"
  shows "j < m" "xp ! j \<le> x" "x < xp ! (j + 1)" "\<forall>i < j. \<not> (xp ! i \<le> x \<and> x < xp ! (i + 1))"
  using assms by (auto simp: find_Some_iff)

lemma between_points:
  fixes a b u u' x :: real
  assumes "a < b" "u < x" "x < u'"
  shows "a < (b - a) / (u' - u) * (x - u) + a" "(b - a) / (u' - u) * (x - u) + a < b"
proof -
  let ?t = "(x - u) / (u' - u)"
  have d: "0 < u' - u" using assms by simp
  have t0: "0 < ?t" using assms d by simp
  have t1: "?t < 1" using assms d by simp
  have e: "(b - a) / (u' - u) * (x - u) = (b - a) * ?t" by simp
  have "0 < (b - a) * ?t" by (rule mult_pos_pos[OF _ t0]) (use assms(1) in simp)
  then show "a < (b - a) / (u' - u) * (x - u) + a" unfolding e by simp
  have "(b - a) * ?t < (b - a) * 1" using assms(1) t1 by (intro mult_strict_left_mono) auto
  then show "(b - a) / (u' - u) * (x - u) + a < b" unfolding e by simp
qed

lemma interp_grid_nonzero:
  assumes len: "length xp = grid_points" and above: "x < xp ! 499"
  shows "interp x xp grid \<noteq> 0"
proof -
  have gp: "grid_points - 1 = 999" "(499::nat) < grid_points" by (simp_all add: grid_points_def)
  show ?thesis
  proof (cases "List.find (\<lambda>j. xp ! j \<le> x \<and> x < xp ! (j + 1)) [0..<length xp - 1]")
    case None
    then show ?thesis by (simp add: interp_def hd_grid last_grid)
  next
    case (Some j)
    from find_bracket[OF Some] have j: "j < length xp - 1" "xp ! j \<le> x" "x < xp ! (j + 1)"
      by auto
    then have jr: "j < grid_points" "j + 1 < grid_points" using len by auto
    have g: "grid ! j = linspace_pt j" "grid ! (j + 1) = linspace_pt (j + 1)"
      using jr by (simp_all add: nth_grid)
    have j499: "j \<noteq> 499" using j(2) above by auto
    have "(if xp ! j = x then grid ! j
           else (grid ! (j + 1) - grid ! j) / (xp ! (j + 1) - xp ! j) * (x - xp ! j) + grid ! j) \<noteq> 0"
    proof (cases "xp ! j = x")
      case True
      then show ?thesis unfolding g by (simp add: linspace_pt_nonzero)
    next
      case False
      with j(2) have lt: "xp ! j < x" by simp
      let ?v = "(linspace_pt (j + 1) - linspace_pt j) / (xp ! (j + 1) - xp ! j) * (x - xp ! j) + linspace_pt j"
      have ab: "linspace_pt j < linspace_pt (j + 1)" by (rule linspace_pt_mono) simp
      from between_points[OF ab lt j(3)] have v: "linspace_pt j < ?v" "?v < linspace_pt (j + 1)" .
      have "?v \<noteq> 0"
      proof
        assume "?v = 0"
        with v have "linspace_pt j < 0" "0 < linspace_pt (j + 1)" by simp_all
        then have "j \<le> 499" "500 \<le> j + 1"
          by (simp_all add: linspace_pt_neg_iff linspace_pt_pos_iff)
        with j499 show False by simp
      qed
      with False show ?thesis unfolding g by simp
    qed
    then show ?thesis using Some by (simp add: interp_def hd_grid last_grid)
  qed
qed

lemma erf_small: "erf (10 / 999 / sqrt 2) \<le> 3 / 5"
proof -
  let ?a = "10 / 999 / sqrt 2 :: real"
  have s: "1 \<le> sqrt 2" by (simp add: real_sqrt_ge_one)
  have a0: "0 \<le> ?a" by simp
  have a': "?a \<le> 10 / 999 / 1" by (rule divide_left_mono) (use s in auto)
  have "10 / 999 / 1 \<le> (1 / 50 :: real)" by simp
  with a' have a1: "?a \<le> 1 / 50" by (rule order_trans)
  have "?a * ?a \<le> 1 / 50 * (1 / 50)" using a0 a1 by (intro mult_mono) auto
  then have "2 * (?a * ?a) \<le> 1" by simp
  then have "exp (2 * (?a * ?a)) \<le> exp 1" by simp
  from this exp_le have e: "exp (2 * (?a * ?a)) \<le> 3" by (rule order_trans)
  have "?a * exp (2 * (?a * ?a)) \<le> 1 / 50 * 3"
    using a0 a1 e by (intro mult_mono) auto
  with erf_upper[OF a0] show ?thesis by simp
qed

lemma norm_cdf_499: "1 / 5 \<le> norm_cdf (linspace_pt 499)" "norm_cdf (linspace_pt 499) < 1 / 2"
proof -
  have "norm_cdf (linspace_pt 499) = 1 - norm_cdf (10 / 999)"
    unfolding linspace_pt_499_500 by (rule norm_cdf_minus)
  also have "\<dots> = 1 / 2 * (1 - erf (10 / 999 / sqrt 2))"
    by (simp add: norm_cdf_def field_simps)
  finally have e: "norm_cdf (linspace_pt 499) = 1 / 2 * (1 - erf (10 / 999 / sqrt 2))" .
  show "1 / 5 \<le> norm_cdf (linspace_pt 499)" unfolding e using erf_small by simp
  show "norm_cdf (linspace_pt 499) < 1 / 2"
    by (rule norm_cdf_neg) (simp add: linspace_pt_neg_iff)
qed

lemma min_cdf_499:
  assumes "4 \<le> n"
  shows "1 / 2 < min_cdf n (linspace_pt 499)"
proof -
  let ?q = "1 - norm_cdf (linspace_pt 499)"
  have q: "0 \<le> ?q" "?q \<le> 4 / 5" using norm_cdf_499 by simp_all
  have "?q ^ n \<le> ?q ^ 4" using q assms by (intro power_decreasing) auto
  also have "\<dots> \<le> (4 / 5) ^ 4" using q by (intro power_mono) auto
  also have "\<dots> < 1 / 2" by (simp add: power4_eq_xxxx)
  finally show ?thesis by (simp add: min_cdf_def)
qed

lemma no_overflow_iff: "calibration_ratio b \<noteq> Inl OverflowError \<longleftrightarrow> \<bar>b\<bar> < 2 ^ 512 - 2 ^ 458"
  by (auto simp: calibration_ratio_def Let_def)

lemma calibration_ratio_pos:
  assumes "2 \<le> \<bar>b\<bar>" "\<bar>b\<bar> < 2 ^ 512 - 2 ^ 458"
  shows "\<exists>r. calibration_ratio b = Inr r \<and> 0 < r"
proof -
  have "4 \<le> b * b"
  proof -
    have "2 * 2 \<le> \<bar>b\<bar> * \<bar>b\<bar>" using assms(1) by (intro mult_mono) auto
    then show ?thesis by (simp add: abs_mult_self_eq)
  qed
  then have n: "4 \<le> nat (b * b)" by simp
  let ?F = "map (min_cdf (nat (b * b))) grid"
  have "?F ! 499 = min_cdf (nat (b * b)) (linspace_pt 499)"
    by (simp add: length_grid nth_grid grid_points_def)
  with min_cdf_499[OF n] have "1 / 2 < ?F ! 499" by simp
  then have "interp (1 / 2) ?F grid \<noteq> 0"
    by (intro interp_grid_nonzero) (simp_all add: length_grid)
  then show ?thesis using assms(2) by (simp add: calibration_ratio_def Let_def)
qed


lemma min_cdf_one: "min_cdf 1 x = norm_cdf x"
  by (simp add: min_cdf_def)

lemma grid_nonempty: "grid \<noteq> []"
  using upt_grid_nonempty by (simp add: grid_def)

lemma last_map_grid: "last (map g grid) = g 10"
  unfolding last_map[OF grid_nonempty] last_grid ..

lemma hd_map_grid: "hd (map g grid) = g (- 10)"
  unfolding hd_map[OF grid_nonempty] hd_grid ..

lemma interp_symmetric:
  "interp (1 / 2) (map norm_cdf grid) grid = 0"
proof -
  let ?F = "map norm_cdf grid"
  let ?P = "\<lambda>j. ?F ! j \<le> 1 / 2 \<and> 1 / 2 < ?F ! (j + 1)"
  have len: "length ?F - 1 = 999" by (simp add: length_grid grid_points_def)
  have F: "?F ! k = norm_cdf (linspace_pt k)" if "k < 1000" for k
    using that by (simp add: length_grid nth_grid grid_points_def)
  have low: "?F ! k < 1 / 2" if "k \<le> 499" for k
    using that norm_cdf_neg[of "linspace_pt k"] by (simp add: F linspace_pt_neg_iff)
  have high: "1 / 2 < ?F ! k" if "500 \<le> k" "k < 1000" for k
    using that norm_cdf_pos[of "linspace_pt k"] by (simp add: F linspace_pt_pos_iff)
  have "List.find ?P [0..<999] = Some 499"
    unfolding find_Some_iff
  proof (intro exI[of _ 499] conjI allI impI)
    show "499 < length [0..<999::nat]" by simp
    show "?F ! ([0..<999] ! 499) \<le> 1 / 2" using low[of 499] by simp
    show "1 / 2 < ?F ! ([0..<999] ! 499 + 1)" using high[of 500] by simp
    show "499 = [0..<999::nat] ! 499" by simp
    fix j :: nat assume j: "j < 499"
    then have "?F ! (j + 1) < 1 / 2" by (intro low) simp
    with j show "\<not> (?F ! ([0..<999] ! j) \<le> 1 / 2 \<and> 1 / 2 < ?F ! ([0..<999] ! j + 1))" by simp
  qed
  then have find: "List.find ?P [0..<length ?F - 1] = Some 499" by (simp only: len)
  have last: "\<not> 1 / 2 > last ?F"
    using norm_cdf_pos[of 10] by (simp add: last_map_grid)
  have hd: "\<not> 1 / 2 < hd ?F"
    using norm_cdf_neg[of "- 10"] by (simp add: hd_map_grid)
  have ne: "?F ! 499 \<noteq> 1 / 2" using low[of 499] by simp
  have sym: "?F ! (499 + 1) = 1 - ?F ! 499"
    using norm_cdf_minus[of "10 / 999"] by (simp add: F linspace_pt_499_500)
  have g: "grid ! (499 + 1) = 10 / 999" "grid ! 499 = - (10 / 999)"
    by (simp_all add: nth_grid grid_points_def linspace_pt_499_500)
  have "interp (1 / 2) ?F grid =
          (grid ! (499 + 1) - grid ! 499) / (?F ! (499 + 1) - ?F ! 499) * (1 / 2 - ?F ! 499) + grid ! 499"
    unfolding interp_def using last hd ne by (simp only: find if_False option.case)
  also have "\<dots> = 0"
    unfolding sym g using ne by (simp add: field_simps)
  finally show ?thesis .
qed

lemma calibration_ratio_one: "calibration_ratio 1 = Inr 0" "calibration_ratio (- 1) = Inr 0"
proof -
  have m: "map (min_cdf (Suc 0)) grid = map norm_cdf grid"
    by (rule map_cong) (simp_all add: min_cdf_def)
  have b: "\<not> (2 ^ 512 - 2 ^ 458 \<le> \<bar>1::int\<bar>)" "\<not> (2 ^ 512 - 2 ^ 458 \<le> \<bar>- 1::int\<bar>)"
    by simp_all
  show "calibration_ratio 1 = Inr 0"
    unfolding calibration_ratio_def using b(1) by (simp add: Let_def m interp_symmetric)
  show "calibration_ratio (- 1) = Inr 0"
    unfolding calibration_ratio_def using b(2) by (simp add: Let_def m interp_symmetric)
qed

lemma calibration_ratio_zero: "calibration_ratio 0 = Inr 10"
proof -
  have "last (map (min_cdf 0) grid) = 0" by (simp add: last_map_grid min_cdf_def)
  then have "interp (1 / 2) (map (min_cdf 0) grid) grid = 10"
    by (simp add: interp_def last_grid)
  then show ?thesis by (simp add: calibration_ratio_def Let_def)
qed

lemma calibration_ratio_overflow:
  "2 ^ 512 - 2 ^ 458 \<le> \<bar>b\<bar> \<Longrightarrow> calibration_ratio b = Inl OverflowError"
  by (simp add: calibration_ratio_def)

lemma calibration_ratio_nonneg: "calibration_ratio b = Inr r \<Longrightarrow> 0 \<le> r"
  by (auto simp: calibration_ratio_def Let_def split: if_splits)

text \<open>
  C4, as amended. The calibration ratio is a function of \<open>boxsize\<close> alone. For every
  \<open>boxsize\<close> of absolute value at least 2 whose square is in the range of double precision
  (\<open>|boxsize| < 2^512 - 2^458\<close>) lines 54 to 58 return a ratio that is strictly positive.
\<close>

theorem calibration_ratio_strictly_positive:
  assumes "2 \<le> \<bar>b\<bar>" "\<bar>b\<bar> < 2 ^ 512 - 2 ^ 458"
  shows "\<exists>r. calibration_ratio b = Inr r \<and> 0 < r"
  using assms by (rule calibration_ratio_pos)

theorem calibration_ratio_strictly_positive_witness:
  "(2::int) \<le> \<bar>3\<bar> \<and> \<bar>3::int\<bar> < 2 ^ 512 - 2 ^ 458 \<and> (\<exists>r. calibration_ratio 3 = Inr r \<and> 0 < r)"
proof -
  have h: "(2::int) \<le> \<bar>3\<bar>" "\<bar>3::int\<bar> < 2 ^ 512 - 2 ^ 458" by simp_all
  from calibration_ratio_strictly_positive[OF h] h show ?thesis by blast
qed

text \<open>
  C4 as stated fails at the positive box size 1: there \<open>F = f\<close>, the grid is symmetric
  about 0 and \<open>f (- x) = 1 - f x\<close>, so the interpolation between the two grid points next
  to 0 gives exactly 0, and the ratio is 0.
\<close>

theorem calibration_ratio_boxsize_one_counterexample:
  "calibration_ratio 1 = Inr 0"
  by (rule calibration_ratio_one)

section \<open>The noise map\<close>

lemma reflect_less: "0 < n \<Longrightarrow> reflect n p < n"
proof -
  assume n: "0 < n"
  have "0 \<le> p mod (2 * int n)" "p mod (2 * int n) < 2 * int n"
    using n by simp_all
  then show ?thesis unfolding reflect_def Let_def by auto
qed

lemma min_list_const: "xs \<noteq> [] \<Longrightarrow> \<forall>x \<in> set xs. x = c \<Longrightarrow> min_list xs = (c::real)"
proof -
  assume a: "xs \<noteq> []" "\<forall>x \<in> set xs. x = c"
  then have "set xs = {c}" by (cases xs) auto
  with a(1) show ?thesis by (simp add: min_list_Min)
qed

lemma window_nonempty: "1 < sz \<Longrightarrow> window sz i \<noteq> []"
  by (simp add: window_def)

lemma tabulate2_const:
  assumes "rect H W a" "\<And>i j. i < H \<Longrightarrow> j < W \<Longrightarrow> f i j = c"
  shows "tabulate2 a f = replicate H (replicate W c)"
proof (rule rect_eqI[of H W])
  show "rect H W (tabulate2 a f)" by (rule rect_tabulate2[OF assms(1)])
  show "rect H W (replicate H (replicate W c))" by (rule rect_replicate)
  fix i j assume ij: "i < H" "j < W"
  with assms(1) have "i < length a" "j < length (a ! i)" by (simp_all add: rect_iff)
  then show "tabulate2 a f ! i ! j = replicate H (replicate W c) ! i ! j"
    using ij assms(2) by (simp add: nth_tabulate2)
qed

lemma minimum_filter1d_axis0_const:
  assumes "1 < sz"
  shows "minimum_filter1d_axis0 (replicate H (replicate W c)) sz = replicate H (replicate W c)"
  unfolding minimum_filter1d_axis0_def
proof (rule tabulate2_const[OF rect_replicate])
  fix i j assume ij: "i < H" "j < W"
  show "min_list (map (\<lambda>p. replicate H (replicate W c) ! reflect (length (replicate H (replicate W c))) p ! j)
          (window sz i)) = c"
    using ij window_nonempty[OF assms, of i] reflect_less[of H]
    by (intro min_list_const) auto
qed

lemma minimum_filter1d_axis1_const:
  assumes "1 < sz"
  shows "minimum_filter1d_axis1 (replicate H (replicate W c)) sz = replicate H (replicate W c)"
  unfolding minimum_filter1d_axis1_def
proof (rule tabulate2_const[OF rect_replicate])
  fix i j assume ij: "i < H" "j < W"
  show "min_list (map (\<lambda>p. replicate H (replicate W c) ! i ! reflect (length (replicate H (replicate W c) ! i)) p)
          (window sz j)) = c"
    using ij window_nonempty[OF assms, of j] reflect_less[of W]
    by (intro min_list_const) auto
qed

lemma minimum_filter_const:
  "minimum_filter (replicate H (replicate W c)) (b, b) = replicate H (replicate W c)"
  by (simp add: minimum_filter_def minimum_filter1d_axis0_const minimum_filter1d_axis1_const)

lemma concat_replicate_replicate: "concat (replicate H (replicate W c)) = replicate (H * W) c"
  by (induction H) (simp_all add: replicate_add)



lemma rect_minimum_filter: "rect H W img \<Longrightarrow> rect H W (minimum_filter img box)"
  by (simp add: minimum_filter_def minimum_filter1d_axis0_def minimum_filter1d_axis1_def
      rect_tabulate2 Let_def)


lemma finite_part_map_Fin: "finite_part (map Fin vs) = vs"
  by (induction vs) auto

lemma sort_fl_map_Fin: "sort_fl (map Fin vs) = map Fin (sort vs)"
  by (simp add: sort_fl_def finite_part_map_Fin filter_empty_conv)

lemma median_map_Fin:
  assumes "vs \<noteq> []"
  shows "median (map Fin vs) = Fin (median_real vs)"
proof -
  have n: "length vs div 2 < length (sort vs)" "length vs div 2 - 1 < length (sort vs)"
    using assms by (auto simp: length_greater_0_conv[symmetric] simp del: length_greater_0_conv)
  have nan: "NaN \<notin> set (map Fin vs)" by auto
  show ?thesis
    using assms nan n
    by (simp add: median_def sort_fl_map_Fin median_real_def Let_def del: set_map)
qed

lemma median_real_replicate: "0 < n \<Longrightarrow> median_real (replicate n c) = c"
proof -
  assume n: "0 < n"
  have s: "sort (replicate n c) = replicate n c"
    by (simp add: sorted_sort_id sorted_replicate)
  have "n div 2 < n" "n div 2 - 1 < n" using n by auto
  then show ?thesis by (simp add: median_real_def s Let_def)
qed

lemma median_replicate_Fin: "0 < n \<Longrightarrow> median (replicate n (Fin c)) = Fin c"
proof -
  assume n: "0 < n"
  have e: "replicate n (Fin c) = map Fin (replicate n c)" by simp
  have ne: "replicate n c \<noteq> []" using n by simp
  show ?thesis
    unfolding e median_map_Fin[OF ne] median_real_replicate[OF n] ..
qed








lemma make_noise_map_ratio:
  "calibration_ratio b = Inr r \<Longrightarrow> make_noise_map img b = Inr (noise_from_ratio r img b)"
  by (simp add: make_noise_map_def ebind_def)

lemma make_noise_map_overflow:
  "2 ^ 512 - 2 ^ 458 \<le> \<bar>b\<bar> \<Longrightarrow> make_noise_map img b = Inl OverflowError"
  by (simp add: make_noise_map_def ebind_def calibration_ratio_overflow)

lemma small_boxsize: "\<bar>b\<bar> < 2 ^ 20 \<Longrightarrow> \<bar>b::int\<bar> < 2 ^ 512 - 2 ^ 458"
  by simp








lemma make_noise_map_zero:
  assumes "0 < H" "0 < W" "calibration_ratio b = Inr r" "r \<noteq> 0"
    "minimum_filter img (b, b) = replicate H (replicate W 0)"
  shows "make_noise_map img b = Inr (replicate H (replicate W (Fin 0)))"
proof -
  have "noise_from_ratio r img b = replicate H (replicate W (Fin 0))"
    using assms(1,2,4)
    by (simp add: noise_from_ratio_def raw_noise_def assms(5) fl_div_def floor_guard_def
        concat_replicate_replicate median_replicate_Fin median_clamp_def)
  then show ?thesis by (simp add: make_noise_map_ratio[OF assms(3)])
qed

lemma ratio_three: "\<exists>r. calibration_ratio 3 = Inr r \<and> 0 < r"
  by (rule calibration_ratio_pos) simp_all

lemma make_noise_map_zero_image:
  assumes "0 < H" "0 < W"
  shows "make_noise_map (replicate H (replicate W 0)) 3 = Inr (replicate H (replicate W (Fin 0)))"
proof -
  from ratio_three obtain r where r: "calibration_ratio 3 = Inr r" "r \<noteq> 0" by auto
  show ?thesis by (rule make_noise_map_zero[OF assms r minimum_filter_const])
qed





section \<open>Scenarios\<close>

lemma threshold_mask_cells:
  assumes "rect H W img"
  shows "rect H W (threshold_mask img t noise)"
    and "i < H \<Longrightarrow> j < W \<Longrightarrow>
         threshold_mask img t noise ! i ! j = fl_less (fl_times t (noise ! i ! j)) (Fin (img ! i ! j))"
proof -
  show "rect H W (threshold_mask img t noise)"
    unfolding threshold_mask_def by (rule rect_tabulate2[OF assms])
  show "threshold_mask img t noise ! i ! j = fl_less (fl_times t (noise ! i ! j)) (Fin (img ! i ! j))"
    if "i < H" "j < W"
    using that assms by (simp add: threshold_mask_def nth_tabulate2 rect_iff)
qed

lemma border_suppress_all_false:
  assumes "0 < H" "0 < W"
  shows "border_suppress (replicate H (replicate W False)) = Inr (replicate H (replicate W False))"
proof -
  from border_suppress_cells[OF rect_replicate assms, of False] obtain m' where
    a: "border_suppress (replicate H (replicate W False)) = Inr m'" and b: "rect H W m'" and
    c: "\<forall>i < H. \<forall>j < W. m' ! i ! j =
              (if i = 0 \<or> i = H - 1 \<or> j = 0 \<or> j = W - 1 then False
               else replicate H (replicate W False) ! i ! j)"
    by blast
  have "m' = replicate H (replicate W False)"
    by (rule rect_eqI[OF b rect_replicate]) (use c in auto)
  with a show ?thesis by simp
qed

lemma nth_list_update_if:
  "(xs[i := x]) ! j = (if i = j \<and> i < length xs then x else xs ! j)"
  by (cases "i < length xs") (auto simp: nth_list_update list_update_beyond)

lemma image7_spike: "image7 = spike 7 7 3 3 100"
  by (simp add: image7_def spike_def numeral_eq_Suc)

lemma rect_spike: "rect H W (spike H W r c v)"
  by (auto simp: rect_iff spike_def nth_list_update_if)

lemma spike_nth:
  "i < H \<Longrightarrow> j < W \<Longrightarrow> spike H W r c v ! i ! j = (if i = r \<and> j = c then v else 0)"
  by (auto simp: spike_def nth_list_update_if)

lemma window3: "window 3 i = [int i - 1, int i, int i + 1]"
  by (simp add: window_def numeral_3_eq_3)

lemma reflect_id: "i < n \<Longrightarrow> reflect n (int i) = i"
  by (simp add: reflect_def)

lemma reflect_pred: "0 < i \<Longrightarrow> i < n \<Longrightarrow> reflect n (int i - 1) = i - 1"
  by (simp add: reflect_def Let_def)

lemma min_list_zero:
  assumes "\<forall>x \<in> set xs. (0::real) \<le> x" "0 \<in> set xs"
  shows "min_list xs = 0"
proof -
  from assms(2) have ne: "xs \<noteq> []" by auto
  have "Min (set xs) = 0" using assms by (intro Min_eqI) auto
  with ne show ?thesis by (simp add: min_list_Min)
qed

lemma minimum_filter1d_axis0_spike:
  assumes "0 < r" "r < H" "0 \<le> v"
  shows "minimum_filter1d_axis0 (spike H W r c v) 3 = replicate H (replicate W 0)"
  unfolding minimum_filter1d_axis0_def
proof (rule tabulate2_const[OF rect_spike])
  fix i j assume ij: "i < H" "j < W"
  have len: "length (spike H W r c v) = H" using rect_spike[of H W r c v] by (simp add: rect_iff)
  let ?e = "\<lambda>p. spike H W r c v ! reflect H p ! j"
  have H: "0 < H" using ij by simp
  have nonneg: "0 \<le> ?e p" for p
    using reflect_less[OF H, of p] ij assms(3) by (simp add: spike_nth)
  have "?e (int i) = 0 \<or> ?e (int i - 1) = 0"
  proof (cases "i = r")
    case False
    then show ?thesis using ij by (simp add: reflect_id spike_nth)
  next
    case True
    then have "reflect H (int i - 1) = r - 1" using assms by (simp add: reflect_pred)
    moreover have "r - 1 < H" "r - 1 \<noteq> r" using assms by auto
    ultimately have "?e (int i - 1) = 0" using ij by (simp add: spike_nth)
    then show ?thesis ..
  qed
  then have "0 \<in> set (map ?e (window 3 i))" by (auto simp: window3)
  moreover have "\<forall>x \<in> set (map ?e (window 3 i)). 0 \<le> x" using nonneg by auto
  ultimately show "min_list (map (\<lambda>p. spike H W r c v ! reflect (length (spike H W r c v)) p ! j)
     (window 3 i)) = 0"
    unfolding len by (rule min_list_zero[rotated])
qed

lemma minimum_filter_spike:
  assumes "0 < r" "r < H" "0 \<le> v"
  shows "minimum_filter (spike H W r c v) (3, 3) = replicate H (replicate W 0)"
  by (simp add: minimum_filter_def minimum_filter1d_axis0_spike[OF assms] minimum_filter1d_axis1_const)

lemma image3_spike: "image3 = spike 3 3 1 1 100"
  by (simp add: image3_def spike_def numeral_eq_Suc)


text \<open>
  C1, as amended. For the all-zero \<open>5 \<times> 5\<close> image with \<open>boxsize = 3\<close>, \<open>make_noise_map\<close>
  returns the noise map whose every element is 0: every window minimum is 0, the noise
  \<open>-0 / ratio\<close> is not negative, so the floor guard leaves it, and the median is 0. For any
  positive threshold the mask after border suppression is all false.
\<close>

theorem zero_image_scenario:
  "make_noise_map (replicate 5 (replicate 5 0)) 3 = Inr (replicate 5 (replicate 5 (Fin 0))) \<and>
   (\<forall>t > 0. border_suppress (threshold_mask (replicate 5 (replicate 5 0)) t
                 (replicate 5 (replicate 5 (Fin 0))))
             = Inr (replicate 5 (replicate 5 False)))"
proof -
  have n: "make_noise_map (replicate 5 (replicate 5 0)) 3 = Inr (replicate 5 (replicate 5 (Fin 0)))"
    by (rule make_noise_map_zero_image) simp_all
  have t: "threshold_mask (replicate 5 (replicate 5 0)) t (replicate 5 (replicate 5 (Fin 0)))
             = replicate 5 (replicate 5 False)" for t
    unfolding threshold_mask_def by (rule tabulate2_const[OF rect_replicate]) simp
  have b: "border_suppress (replicate 5 (replicate 5 False)) = Inr (replicate 5 (replicate 5 False))"
    by (rule border_suppress_all_false) simp_all
  show ?thesis by (simp only: n t b) simp
qed

theorem zero_image_scenario_witness:
  "make_noise_map (replicate 5 (replicate 5 0)) 3 = Inr (replicate 5 (replicate 5 (Fin 0))) \<and>
   border_suppress (threshold_mask (replicate 5 (replicate 5 0)) 1
                       (replicate 5 (replicate 5 (Fin 0))))
                   = Inr (replicate 5 (replicate 5 False))"
  using zero_image_scenario by (meson zero_less_one)

text \<open>
  C1 as stated fails: the noise map of the all-zero \<open>5 \<times> 5\<close> image with \<open>boxsize = 3\<close> is
  not the map whose every element is \<open>1e-10\<close>.
\<close>

theorem zero_image_floor_counterexample:
  "make_noise_map (replicate 5 (replicate 5 0)) 3
     \<noteq> Inr (replicate 5 (replicate 5 (Fin (1 / 10 ^ 10))))"
proof -
  have "make_noise_map (replicate 5 (replicate 5 0)) 3 = Inr (replicate 5 (replicate 5 (Fin 0)))"
    by (rule make_noise_map_zero_image) simp_all
  then show ?thesis by (simp add: numeral_eq_Suc)
qed

lemma make_noise_map_spike:
  assumes "0 < r" "r < H" "0 \<le> v" "0 < W"
  shows "make_noise_map (spike H W r c v) 3 = Inr (replicate H (replicate W (Fin 0)))"
proof -
  from ratio_three obtain q where q: "calibration_ratio 3 = Inr q" "q \<noteq> 0" by auto
  have H: "0 < H" using assms by simp
  show ?thesis
    by (rule make_noise_map_zero[OF H assms(4) q minimum_filter_spike[OF assms(1,2,3)]])
qed

lemma suppressed_spike:
  assumes "0 < r" "r < H - 1" "0 < c" "c < W - 1" "0 < v"
  shows "\<exists>m. border_suppress (threshold_mask (spike H W r c v) t (replicate H (replicate W (Fin 0)))) = Inr m
             \<and> rect H W m \<and> true_set m = {(r, c)}"
proof -
  let ?img = "spike H W r c v"
  have HW: "0 < H" "0 < W" "r < H" "c < W" using assms by auto
  let ?raw = "threshold_mask ?img t (replicate H (replicate W (Fin 0)))"
  have rr: "rect H W ?raw" by (rule threshold_mask_cells(1)[OF rect_spike])
  have rc: "?raw ! i ! j = (i = r \<and> j = c)" if "i < H" "j < W" for i j
    using that assms(5) by (simp add: threshold_mask_cells(2)[OF rect_spike] spike_nth)
  from border_suppress_cells[OF rr HW(1,2)] obtain m where
    a: "border_suppress ?raw = Inr m" and b: "rect H W m" and
    c: "\<forall>i < H. \<forall>j < W. m ! i ! j =
              (if i = 0 \<or> i = H - 1 \<or> j = 0 \<or> j = W - 1 then False else ?raw ! i ! j)"
    by blast
  have mc: "m ! i ! j = (i = r \<and> j = c)" if ij: "i < H" "j < W" for i j
  proof -
    have "m ! i ! j = (if i = 0 \<or> i = H - 1 \<or> j = 0 \<or> j = W - 1 then False else ?raw ! i ! j)"
      using c ij by blast
    also have "\<dots> = (i = r \<and> j = c)" using rc[OF ij] assms by auto
    finally show ?thesis .
  qed
  have "true_set m = {(i, j). i < H \<and> j < W \<and> i = r \<and> j = c}"
    unfolding true_set_rect[OF b] using mc by auto
  also have "\<dots> = {(r, c)}" using HW by auto
  finally have "true_set m = {(r, c)}" .
  with a b show ?thesis by auto
qed

lemma main_single:
  "main \<lparr>threshold = Some t, boxsize = Some b, dilate = Some d, fill_holes = fh\<rparr> [img] =
     ebind (make_noise_map img b) (\<lambda>noise_image.
       ebind (border_suppress (threshold_mask img t noise_image))
         (\<lambda>suppressed. Inr (fill_stage (dilate_stage suppressed d) fh)))"
  by (simp add: main_def)

lemma main_spike:
  assumes "0 < r" "r < H - 1" "0 < c" "c < W - 1" "0 < v"
  shows "\<exists>m. rect H W m \<and> true_set m = {(r, c)} \<and>
           (\<forall>d fh. main \<lparr>threshold = Some t, boxsize = Some 3, dilate = Some d, fill_holes = fh\<rparr>
                       [spike H W r c v] = Inr (fill_stage (dilate_stage m d) fh))"
proof -
  have n: "make_noise_map (spike H W r c v) 3 = Inr (replicate H (replicate W (Fin 0)))"
    using assms by (intro make_noise_map_spike) auto
  from suppressed_spike[OF assms, of t] obtain m where
    m: "border_suppress (threshold_mask (spike H W r c v) t (replicate H (replicate W (Fin 0)))) = Inr m"
      "rect H W m" "true_set m = {(r, c)}"
    by blast
  have "main \<lparr>threshold = Some t, boxsize = Some 3, dilate = Some d, fill_holes = fh\<rparr>
          [spike H W r c v] = Inr (fill_stage (dilate_stage m d) fh)" for d fh
    by (simp add: main_single n m(1) ebind_def)
  with m(2,3) show ?thesis by blast
qed

text \<open>
  C9. For the \<open>7 \<times> 7\<close> image that is 0 everywhere except 100 at \<open>(3, 3)\<close>, with
  \<open>threshold = 1\<close> and \<open>boxsize = 3\<close>: without dilation \<open>main\<close> returns the thresholded and
  border-suppressed mask, whose only true pixel is \<open>(3, 3)\<close>; with \<open>dilate = 1\<close> the true
  pixels are exactly the five pixels of the plus shape centred at \<open>(3, 3)\<close>.
\<close>

theorem spike7_scenario:
  "(\<exists>m. main \<lparr>threshold = Some 1, boxsize = Some 3, dilate = Some 0, fill_holes = False\<rparr> [image7]
          = Inr m \<and>
        rect 7 7 m \<and> true_set m = {(3, 3)}) \<and>
   (\<exists>m. main \<lparr>threshold = Some 1, boxsize = Some 3, dilate = Some 1, fill_holes = False\<rparr> [image7]
          = Inr m \<and>
        rect 7 7 m \<and> true_set m = {(2, 3), (3, 2), (3, 3), (3, 4), (4, 3)})"
proof -
  from main_spike[of 3 7 3 7 100 1] obtain m where
    b: "rect 7 7 m" and c: "true_set m = {(3, 3)}" and
    a: "\<And>d fh. main \<lparr>threshold = Some 1, boxsize = Some 3, dilate = Some d, fill_holes = fh\<rparr> [image7]
           = Inr (fill_stage (dilate_stage m d) fh)"
    unfolding image7_spike by auto
  have d: "rect 7 7 (dilation_step False None m)" by (rule rect_dilation_step[OF b])
  have e: "true_set (dilation_step False None m) = {(2, 3), (3, 2), (3, 3), (3, 4), (4, 3)}"
    unfolding true_set_dilation_step[OF b] c by auto
  have "main \<lparr>threshold = Some 1, boxsize = Some 3, dilate = Some 0, fill_holes = False\<rparr> [image7] = Inr m"
    by (simp add: a fill_stage_def dilate_stage_def)
  moreover have "main \<lparr>threshold = Some 1, boxsize = Some 3, dilate = Some 1, fill_holes = False\<rparr> [image7]
       = Inr (dilation_step False None m)"
    by (simp add: a fill_stage_def dilate_stage_once)
  ultimately show ?thesis using b c d e by simp
qed

text \<open>
  C10. Dilation runs after border suppression, so the final mask can be true on the
  outermost ring. For the \<open>3 \<times> 3\<close> image that is 0 except 100 at the centre, with
  \<open>threshold = 1\<close> and \<open>boxsize = 3\<close>: without dilation the mask that \<open>main\<close> returns is
  true at the centre only, and with \<open>dilate = 1\<close> it is true at \<open>(0, 1)\<close> on row 0, at
  \<open>(1, 0)\<close> on column 0, at \<open>(1, 2)\<close> on the last column and at \<open>(2, 1)\<close> on the last row.
\<close>

theorem dilation_regrows_border:
  "(\<exists>m. main \<lparr>threshold = Some 1, boxsize = Some 3, dilate = Some 0, fill_holes = False\<rparr> [image3]
          = Inr m \<and>
        rect 3 3 m \<and> true_set m = {(1, 1)}) \<and>
   (\<exists>m. main \<lparr>threshold = Some 1, boxsize = Some 3, dilate = Some 1, fill_holes = False\<rparr> [image3]
          = Inr m \<and>
        rect 3 3 m \<and> (0, 1) \<in> true_set m \<and> (1, 0) \<in> true_set m \<and>
        (1, 2) \<in> true_set m \<and> (2, 1) \<in> true_set m)"
proof -
  from main_spike[of 1 3 1 3 100 1] obtain m where
    b: "rect 3 3 m" and c: "true_set m = {(1, 1)}" and
    a: "\<And>d fh. main \<lparr>threshold = Some 1, boxsize = Some 3, dilate = Some d, fill_holes = fh\<rparr> [image3]
           = Inr (fill_stage (dilate_stage m d) fh)"
    unfolding image3_spike by auto
  have d: "rect 3 3 (dilation_step False None m)" by (rule rect_dilation_step[OF b])
  have e: "true_set (dilation_step False None m) = {(0, 1), (1, 0), (1, 1), (1, 2), (2, 1)}"
    unfolding true_set_dilation_step[OF b] c by auto
  have "main \<lparr>threshold = Some 1, boxsize = Some 3, dilate = Some 0, fill_holes = False\<rparr> [image3] = Inr m"
    by (simp add: a fill_stage_def dilate_stage_def)
  moreover have "main \<lparr>threshold = Some 1, boxsize = Some 3, dilate = Some 1, fill_holes = False\<rparr> [image3]
       = Inr (dilation_step False None m)"
    by (simp add: a fill_stage_def dilate_stage_once)
  ultimately show ?thesis using b c d e by simp
qed

section \<open>No validation of the options\<close>

lemma rect_shape: "rect H W a \<longleftrightarrow> map length a = replicate H W"
  by (auto simp: rect_iff list_eq_iff_nth_eq)

lemma shape_funpow_dilation_step: "map length ((dilation_step bv msk ^^ n) x) = map length x"
  by (induction n) (simp_all add: shape_dilation_step)

lemma shape_binary_dilation: "map length (binary_dilation x k msk bv) = map length x"
  by (simp add: binary_dilation_def shape_funpow_dilation_step shape_dilate_until_stable)

lemma shape_dilate_stage: "map length (dilate_stage x d) = map length x"
  by (simp add: dilate_stage_def shape_binary_dilation)

lemma shape_fill_stage: "map length (fill_stage x fh) = map length x"
proof (cases fh)
  case True
  have "map length (map (map Not) (flood x)) = map length x"
    by (simp only: shape_map_map shape_flood)
  with True show ?thesis by (simp only: fill_stage_def binary_fill_holes_flood if_True)
next
  case False
  then show ?thesis by (simp add: fill_stage_def)
qed


lemma rect_raw_noise: "rect H W img \<Longrightarrow> rect H W (raw_noise r img b)"
  by (simp add: raw_noise_def rect_map_map rect_minimum_filter)

lemma main_runs:
  assumes "rect H W img" "0 < H" "0 < W" "\<bar>b\<bar> < 2 ^ 512 - 2 ^ 458"
  shows "\<exists>nm s. make_noise_map img b = Inr nm \<and>
           border_suppress (threshold_mask img t nm) = Inr s \<and>
           main \<lparr>threshold = Some t, boxsize = Some b, dilate = Some d, fill_holes = fh\<rparr> [img]
             = Inr (fill_stage (dilate_stage s d) fh) \<and>
           rect H W (fill_stage (dilate_stage s d) fh)"
proof -
  from assms(4) obtain r where r: "calibration_ratio b = Inr r"
    by (auto simp: calibration_ratio_def Let_def)
  let ?nm = "noise_from_ratio r img b"
  have nm: "make_noise_map img b = Inr ?nm" by (rule make_noise_map_ratio[OF r])
  let ?raw = "threshold_mask img t ?nm"
  have "rect H W ?raw" by (rule threshold_mask_cells(1)[OF assms(1)])
  from border_suppress_cells[OF this assms(2,3)] obtain s where
    s: "border_suppress ?raw = Inr s" "rect H W s" by blast
  have "main \<lparr>threshold = Some t, boxsize = Some b, dilate = Some d, fill_holes = fh\<rparr> [img]
          = Inr (fill_stage (dilate_stage s d) fh)"
    by (simp add: main_single nm s(1) ebind_def)
  moreover have "rect H W (fill_stage (dilate_stage s d) fh)"
    using s(2) by (simp add: rect_shape shape_fill_stage shape_dilate_stage)
  ultimately show ?thesis using nm s(1) by blast
qed

lemma pipeline_boxsize_minus_one:
  "ebind (border_suppress (threshold_mask image3 (- 1) (noise_from_ratio 0 image3 (- 1))))
     (\<lambda>suppressed. Inr (fill_stage (dilate_stage suppressed (- 2)) False))
   = Inr [[True, True, True], [True, True, True], [True, True, True]]"
  by code_simp

lemma main_boxsize_minus_one:
  "main \<lparr>threshold = Some (- 1), boxsize = Some (- 1), dilate = Some (- 2), fill_holes = False\<rparr> [image3]
     = Inr [[True, True, True], [True, True, True], [True, True, True]]"
  by (simp only: main_single make_noise_map_ratio[OF calibration_ratio_one(2)] ebind_def sum.case
      pipeline_boxsize_minus_one[unfolded ebind_def])

text \<open>
  C3, as amended. \<open>main\<close> makes no check of the range of \<open>boxsize\<close>, \<open>threshold\<close> or
  \<open>dilate\<close>. With options that convert, one image of shape \<open>(H, W)\<close>, \<open>H, W > 0\<close>, every
  threshold, and every \<open>boxsize\<close> and \<open>dilate\<close> below \<open>2^20\<close> in absolute value, whatever
  their signs, it computes the noise map, thresholds, suppresses the border, runs the
  dilation and hole-filling stages and returns a mask of shape \<open>(H, W)\<close>. What it rejects
  is an option that does not convert (\<open>ValueError\<close>, lines 83 to 85), a number of
  positional arguments other than one (exit, lines 89 to 91), and a \<open>boxsize\<close> whose square
  is beyond double precision (\<open>OverflowError\<close>, line 54).
\<close>

theorem main_no_validation:
  assumes "rect H W img" "0 < H" "0 < W" "\<bar>b\<bar> < 2 ^ 20" "\<bar>d\<bar> < 2 ^ 20"
  shows "(\<exists>nm s. make_noise_map img b = Inr nm \<and>
              border_suppress (threshold_mask img t nm) = Inr s \<and>
              main \<lparr>threshold = Some t, boxsize = Some b, dilate = Some d, fill_holes = fh\<rparr> [img]
                = Inr (fill_stage (dilate_stage s d) fh) \<and>
              rect H W (fill_stage (dilate_stage s d) fh)) \<and>
         (length args \<noteq> 1 \<longrightarrow>
            main \<lparr>threshold = Some t, boxsize = Some b, dilate = Some d, fill_holes = fh\<rparr> args
              = Inl SysExit) \<and>
         main \<lparr>threshold = None, boxsize = Some b, dilate = Some d, fill_holes = fh\<rparr> args
           = Inl ValueError \<and>
         main \<lparr>threshold = Some t, boxsize = None, dilate = Some d, fill_holes = fh\<rparr> args
           = Inl ValueError \<and>
         main \<lparr>threshold = Some t, boxsize = Some b, dilate = None, fill_holes = fh\<rparr> args
           = Inl ValueError \<and>
         (\<forall>b'. 2 ^ 512 - 2 ^ 458 \<le> \<bar>b'\<bar> \<longrightarrow>
            main \<lparr>threshold = Some t, boxsize = Some b', dilate = Some d, fill_holes = fh\<rparr> [img]
              = Inl OverflowError)"
proof -
  have o: "main \<lparr>threshold = Some t, boxsize = Some b', dilate = Some d, fill_holes = fh\<rparr> [img]
              = Inl OverflowError" if "2 ^ 512 - 2 ^ 458 \<le> \<bar>b'\<bar>" for b'
    by (simp add: main_single make_noise_map_overflow[OF that] ebind_def)
  show ?thesis
    using main_runs[OF assms(1,2,3) small_boxsize[OF assms(4)], of t d fh] o
    by (simp add: main_def)
qed

theorem main_no_validation_witness:
  "rect 3 3 image3 \<and> \<bar>- 1 :: int\<bar> < 2 ^ 20 \<and> \<bar>- 2 :: int\<bar> < 2 ^ 20 \<and>
   (\<exists>nm s. make_noise_map image3 (- 1) = Inr nm \<and>
        border_suppress (threshold_mask image3 (- 1) nm) = Inr s \<and>
        main \<lparr>threshold = Some (- 1), boxsize = Some (- 1), dilate = Some (- 2), fill_holes = False\<rparr>
          [image3] = Inr (fill_stage (dilate_stage s (- 2)) False) \<and>
        rect 3 3 (fill_stage (dilate_stage s (- 2)) False)) \<and>
   main \<lparr>threshold = Some (- 1), boxsize = Some (- 1), dilate = Some (- 2), fill_holes = False\<rparr> []
     = Inl SysExit \<and>
   main \<lparr>threshold = Some (- 1), boxsize = Some (10 ^ 200), dilate = Some (- 2), fill_holes = False\<rparr>
     [image3] = Inl OverflowError \<and>
   main \<lparr>threshold = Some (- 1), boxsize = Some (- 1), dilate = Some (- 2), fill_holes = False\<rparr>
     [image3] = Inr [[True, True, True], [True, True, True], [True, True, True]]"
proof -
  have r: "rect 3 3 image3" by (simp add: image3_spike rect_spike)
  have h: "\<bar>- 1 :: int\<bar> < 2 ^ 20" "\<bar>- 2 :: int\<bar> < 2 ^ 20" by simp_all
  have v: "main \<lparr>threshold = Some (- 1), boxsize = Some (- 1), dilate = Some (- 2),
      fill_holes = False\<rparr> [image3] = Inr [[True, True, True], [True, True, True], [True, True, True]]"
    by (rule main_boxsize_minus_one)
  have big: "(2::int) ^ 512 - 2 ^ 458 \<le> \<bar>10 ^ 200\<bar>" by simp
  note t = main_no_validation[OF r _ _ h, where t = "- 1" and fh = False and args = "[]"]
  from t have "main \<lparr>threshold = Some (- 1), boxsize = Some (10 ^ 200), dilate = Some (- 2),
      fill_holes = False\<rparr> [image3] = Inl OverflowError"
    using big by (metis zero_less_numeral)
  moreover from t have "main \<lparr>threshold = Some (- 1), boxsize = Some (- 1), dilate = Some (- 2),
      fill_holes = False\<rparr> [] = Inl SysExit"
    by simp
  moreover from t have "\<exists>nm s. make_noise_map image3 (- 1) = Inr nm \<and>
        border_suppress (threshold_mask image3 (- 1) nm) = Inr s \<and>
        main \<lparr>threshold = Some (- 1), boxsize = Some (- 1), dilate = Some (- 2), fill_holes = False\<rparr>
          [image3] = Inr (fill_stage (dilate_stage s (- 2)) False) \<and>
        rect 3 3 (fill_stage (dilate_stage s (- 2)) False)"
    by simp
  ultimately show ?thesis using r h v by blast
qed

text \<open>
  C3 as stated fails: with the non-positive threshold \<open>-1\<close> and one image, \<open>main\<close> is not
  stopped by any error and returns a mask.
\<close>

theorem invalid_parameters_accepted_counterexample:
  "\<exists>m. main \<lparr>threshold = Some (- 1), boxsize = Some 3, dilate = Some 0, fill_holes = False\<rparr> [image3]
          = Inr m \<and>
       rect 3 3 m \<and> true_set m = {(1, 1)}"
proof -
  from main_spike[of 1 3 1 3 100 "- 1"] obtain m where
    b: "rect 3 3 m" and c: "true_set m = {(1, 1)}" and
    a: "\<And>d fh. main \<lparr>threshold = Some (- 1), boxsize = Some 3, dilate = Some d, fill_holes = fh\<rparr> [image3]
           = Inr (fill_stage (dilate_stage m d) fh)"
    unfolding image3_spike by auto
  have "main \<lparr>threshold = Some (- 1), boxsize = Some 3, dilate = Some 0, fill_holes = False\<rparr> [image3] = Inr m"
    by (simp add: a fill_stage_def dilate_stage_def)
  with b c show ?thesis by blast
qed

end
